theory Spec2Isabelle
  imports Main "HOL-Library.Word"
begin

unbundle bit_operations_syntax

section \<open>PX4 parameter storage (libraries/AP_HAL_PX4/Storage.cpp)\<close>

text \<open>
  The class \<open>PX4Storage\<close> keeps a 4k region in memory, tracks dirty lines in a bit mask
  and writes them back to the MTD device \<open>/fs/mtd\<close> from a periodic timer callback.
  The embedding is a record of the object's members together with the part of the file
  system the code talks to; every member function takes the state and returns the new
  one. \<open>hal.scheduler->panic\<close> does not return, so it is an error value.
\<close>

subsection \<open>Constants\<close>

type_synonym byte = "8 word"

text \<open>
  \<open>Storage.h\<close> is not among the sources. The line shift and the write cap it defines are
  taken as parameters of the model.
\<close>

record config =
  PX4_STORAGE_LINE_SHIFT :: nat
  PX4_STORAGE_MAX_WRITE :: nat

text \<open>
  Modelled from the spec: \<open>PX4_STORAGE_SIZE\<close>, the size of \<open>_buffer\<close>, declared in
  \<open>Storage.h\<close>. The region is 4096 bytes (the source's own comment says "a 4k size").
\<close>

definition PX4_STORAGE_SIZE :: nat where
  "PX4_STORAGE_SIZE = 4096"

text \<open>
  Modelled from the spec: \<open>PX4_STORAGE_LINE_SIZE\<close> and \<open>PX4_STORAGE_NUM_LINES\<close> of
  \<open>Storage.h\<close>. A line is the unit the shift addresses, and the line count is the
  region size divided by the line size.
\<close>

definition PX4_STORAGE_LINE_SIZE :: "config \<Rightarrow> nat" where
  "PX4_STORAGE_LINE_SIZE g = 2 ^ PX4_STORAGE_LINE_SHIFT g"

definition PX4_STORAGE_NUM_LINES :: "config \<Rightarrow> nat" where
  "PX4_STORAGE_NUM_LINES g = PX4_STORAGE_SIZE div PX4_STORAGE_LINE_SIZE g"

definition MTD_SIGNATURE :: "32 word" where
  "MTD_SIGNATURE = 0x14012014"

definition MTD_SIGNATURE_OFFSET :: nat where
  "MTD_SIGNATURE_OFFSET = 8192 - 4"

text \<open>
  The configurations the code is written for: the lines fit the 32-bit dirty mask (so
  the \<open>uint8_t\<close> line counters never wrap and every shift \<open>1 << i\<close> is defined), there
  is at least one line, and the write cap holds at least one line.
\<close>

definition config_ok :: "config \<Rightarrow> bool" where
  "config_ok g \<longleftrightarrow>
     7 \<le> PX4_STORAGE_LINE_SHIFT g \<and> PX4_STORAGE_LINE_SHIFT g \<le> 12 \<and>
     PX4_STORAGE_LINE_SIZE g \<le> PX4_STORAGE_MAX_WRITE g"

subsection \<open>Errors, device calls and the state\<close>

text \<open>
  \<open>Panic\<close> is \<open>hal.scheduler->panic\<close> with its message. \<open>Fault\<close> is an access outside
  an array (undefined behaviour in C++). \<open>Hang\<close> is a loop that never ends.
\<close>

datatype error = Panic string | Fault | Hang

text \<open>
  The system calls the code makes, one name per call site. The environment is a
  predicate on them: \<open>io s\<close> holds when the call at site \<open>s\<close> fails.
\<close>

datatype site =
    Sig_open | Sig_lseek | Sig_read
  | Wsig_open | Wsig_lseek | Wsig_write
  | Upg_open_old | Upg_open_mtd | Upg_read_old | Upg_write_mtd
  | Open_open | Open_read
  | Tick_open | Tick_lseek | Tick_write | Tick_fsync

type_synonym io = "site \<Rightarrow> bool"

text \<open>
  What the code leaves behind outside its own members: the \<open>stat\<close> calls of
  \<open>_storage_open\<close>, the diagnostics printed by \<open>_upgrade_to_mtd\<close>, and the calls on
  the descriptor \<open>_fd\<close> held by \<open>_timer_tick\<close>. \<open>Ev_write off len ok\<close> is a write of
  \<open>len\<close> bytes at offset \<open>off\<close> and whether it wrote them all.
\<close>

datatype event =
    Ev_stat_mtd | Ev_stat_old
  | Ev_failed_to_open_old | Ev_failed_to_read_old | Ev_upgraded
  | Ev_open bool | Ev_lseek nat bool | Ev_write nat nat bool | Ev_fsync bool | Ev_close

text \<open>
  The members of \<open>PX4Storage\<close> (without the leading underscore), the two performance
  counters (\<open>perf_storage\<close> counts the measured intervals, \<open>perf_errors\<close> the errors),
  and the environment: the bytes of the device \<open>/fs/mtd\<close> and of the legacy file
  (\<open>None\<close> when the path does not exist), and the trace of events. \<open>_dirty_mask\<close>
  is declared in \<open>Storage.h\<close>; it is 32 bits wide here, as \<open>write_mask\<close> is in
  \<open>_timer_tick\<close>. \<open>_buffer\<close> has \<open>PX4_STORAGE_SIZE\<close> bytes.
\<close>

record px4 =
  fd :: int
  dirty_mask :: "32 word"
  buffer :: "byte list"
  initialised :: bool
  have_mtd :: bool
  perf_storage :: nat
  perf_errors :: nat
  mtd :: "byte list option"
  old_file :: "byte list option"
  trace :: "event list"

definition emit :: "event list \<Rightarrow> px4 \<Rightarrow> px4" where
  "emit evs st = st\<lparr>trace := trace st @ evs\<rparr>"

definition perf_count :: "px4 \<Rightarrow> px4" where
  "perf_count st = st\<lparr>perf_errors := Suc (perf_errors st)\<rparr>"

definition perf_end :: "px4 \<Rightarrow> px4" where
  "perf_end st = st\<lparr>perf_storage := Suc (perf_storage st)\<rparr>"

text \<open>
  The device has a fixed size: a write at \<open>off\<close> replaces the bytes there and fails
  (\<open>None\<close>) when it does not fit.
\<close>

definition dev_write :: "nat \<Rightarrow> byte list \<Rightarrow> byte list \<Rightarrow> byte list option" where
  "dev_write off bs m =
     (if off + length bs \<le> length m
      then Some (take off m @ bs @ drop (off + length bs) m) else None)"

text \<open>\<open>memcpy\<close> between an integer and bytes: the PX4 is little-endian.\<close>

fun le_word :: "byte list \<Rightarrow> 'a::len word" where
  "le_word [] = 0"
| "le_word (b # bs) = ucast b OR push_bit 8 (le_word bs)"

fun le_bytes :: "nat \<Rightarrow> 'a::len word \<Rightarrow> byte list" where
  "le_bytes 0 w = []"
| "le_bytes (Suc k) w = ucast w # le_bytes k (drop_bit 8 w)"

subsection \<open>Signature and migration\<close>

text \<open>\<open>_mtd_signature\<close>: the 32-bit value at \<open>MTD_SIGNATURE_OFFSET\<close> of the device.\<close>

definition mtd_signature :: "io \<Rightarrow> px4 \<Rightarrow> error + 32 word" where
  "mtd_signature io st =
     (case mtd st of
        None \<Rightarrow> Inl (Panic ''Failed to open /fs/mtd'')
      | Some m \<Rightarrow>
          if io Sig_open then Inl (Panic ''Failed to open /fs/mtd'')
          else if io Sig_lseek then Inl (Panic ''Failed to seek in /fs/mtd'')
          else
            let v = take 4 (drop MTD_SIGNATURE_OFFSET m) in
            if io Sig_read \<or> length v \<noteq> 4
            then Inl (Panic ''Failed to read signature from /fs/mtd'')
            else Inr (le_word v))"

text \<open>\<open>_mtd_write_signature\<close>: put \<open>MTD_SIGNATURE\<close> at \<open>MTD_SIGNATURE_OFFSET\<close>.\<close>

definition mtd_write_signature :: "io \<Rightarrow> px4 \<Rightarrow> error + px4" where
  "mtd_write_signature io st =
     (case mtd st of
        None \<Rightarrow> Inl (Panic ''Failed to open /fs/mtd'')
      | Some m \<Rightarrow>
          if io Wsig_open then Inl (Panic ''Failed to open /fs/mtd'')
          else if io Wsig_lseek then Inl (Panic ''Failed to seek in /fs/mtd'')
          else if io Wsig_write then Inl (Panic ''Failed to write signature in /fs/mtd'')
          else
            (case dev_write MTD_SIGNATURE_OFFSET (le_bytes 4 MTD_SIGNATURE) m of
               None \<Rightarrow> Inl (Panic ''Failed to write signature in /fs/mtd'')
             | Some m' \<Rightarrow> Inr (st\<lparr>mtd := Some m'\<rparr>)))"

text \<open>
  \<open>_upgrade_to_mtd\<close>: copy the legacy file to the device. A legacy file that cannot be
  opened or does not give \<open>sizeof(_buffer)\<close> bytes is reported and the function returns;
  the bytes a short read did deliver are in \<open>_buffer\<close> by then.
\<close>

definition upgrade_to_mtd :: "io \<Rightarrow> px4 \<Rightarrow> error + px4" where
  "upgrade_to_mtd io st =
     (case old_file st of
        None \<Rightarrow> Inr (emit [Ev_failed_to_open_old] st)
      | Some f \<Rightarrow>
          if io Upg_open_old then Inr (emit [Ev_failed_to_open_old] st)
          else
            (case mtd st of
               None \<Rightarrow> Inl (Panic ''Unable to open MTD for upgrade'')
             | Some m \<Rightarrow>
                 if io Upg_open_mtd then Inl (Panic ''Unable to open MTD for upgrade'')
                 else if io Upg_read_old then Inr (emit [Ev_failed_to_read_old] st)
                 else
                   let got = take PX4_STORAGE_SIZE f;
                       st1 = st\<lparr>buffer := got @ drop (length got) (buffer st)\<rparr>
                   in
                   if length got \<noteq> PX4_STORAGE_SIZE
                   then Inr (emit [Ev_failed_to_read_old] st1)
                   else if io Upg_write_mtd
                   then Inl (Panic ''Unable to write MTD for upgrade'')
                   else
                     (case dev_write 0 (take PX4_STORAGE_SIZE (buffer st1)) m of
                        None \<Rightarrow> Inl (Panic ''Unable to write MTD for upgrade'')
                      | Some m' \<Rightarrow> Inr (emit [Ev_upgraded] (st1\<lparr>mtd := Some m'\<rparr>)))))"

subsection \<open>Lifecycle\<close>

text \<open>
  \<open>_storage_open\<close>. \<open>STORAGE_RENAME_OLD_FILE\<close> is 0, so the legacy file is never
  renamed.
\<close>

definition storage_open :: "io \<Rightarrow> px4 \<Rightarrow> error + px4" where
  "storage_open io st =
     (if initialised st then Inr st
      else
        let st1 = emit [Ev_stat_mtd] (st\<lparr>have_mtd := (mtd st \<noteq> None)\<rparr>) in
        if \<not> have_mtd st1 then Inl (Panic ''Failed to find /fs/mtd'')
        else
          (case mtd_signature io st1 of
             Inl e \<Rightarrow> Inl e
           | Inr v \<Rightarrow>
               let good_signature = (v = MTD_SIGNATURE);
                   st2 = emit [Ev_stat_old] st1
               in
               (case (if old_file st2 \<noteq> None
                      then (if good_signature then Inr st2 else upgrade_to_mtd io st2)
                      else Inr st2) of
                  Inl e \<Rightarrow> Inl e
                | Inr st3 \<Rightarrow>
                    (case (if \<not> good_signature then mtd_write_signature io st3
                           else Inr st3) of
                       Inl e \<Rightarrow> Inl e
                     | Inr st4 \<Rightarrow>
                         let st5 = st4\<lparr>dirty_mask := 0\<rparr> in
                         (case mtd st5 of
                            None \<Rightarrow> Inl (Panic ''Failed to open /fs/mtd'')
                          | Some m \<Rightarrow>
                              if io Open_open then Inl (Panic ''Failed to open /fs/mtd'')
                              else if io Open_read \<or> length m < PX4_STORAGE_SIZE
                              then Inl (Panic ''Failed to read /fs/mtd'')
                              else Inr (st5\<lparr>buffer := take PX4_STORAGE_SIZE m,
                                             initialised := True\<rparr>))))))"

subsection \<open>Dirty tracker\<close>

text \<open>
  The loop of \<open>_mark_dirty\<close>. \<open>loc\<close> and \<open>end\<close> (here \<open>e\<close>) are \<open>uint16_t\<close> and \<open>loc\<close> wraps
  when a line size is added, so the loop need not end: not returning is \<open>None\<close>.
  \<open>line\<close> is a \<open>uint8_t\<close>; the shift \<open>1 << line\<close> gives no bit of the 32-bit mask
  when \<open>line\<close> is 32 or more.
\<close>

partial_function (option) mark_dirty_loop ::
  "config \<Rightarrow> 16 word \<Rightarrow> 16 word \<Rightarrow> 32 word \<Rightarrow> 32 word option" where
  "mark_dirty_loop g e loc dmask =
     (if loc < e
      then
        let line = (ucast (drop_bit (PX4_STORAGE_LINE_SHIFT g) loc) :: 8 word) in
        mark_dirty_loop g e (loc + of_nat (PX4_STORAGE_LINE_SIZE g))
          (dmask OR push_bit (unat line) 1)
      else Some dmask)"

declare mark_dirty_loop.simps [code]

definition mark_dirty :: "config \<Rightarrow> px4 \<Rightarrow> 16 word \<Rightarrow> 16 word \<Rightarrow> px4 option" where
  "mark_dirty g st loc len =
     (case mark_dirty_loop g (loc + len) loc (dirty_mask st) of
        None \<Rightarrow> None
      | Some dmask \<Rightarrow> Some (st\<lparr>dirty_mask := dmask\<rparr>))"

subsection \<open>Accessors\<close>

text \<open>
  \<open>sizeof\<close> and \<open>n\<close> are \<open>size_t\<close>, 32 bits wide on the PX4, and \<open>loc\<close> is converted to
  it for the comparison: the guards are computed in \<open>32 word\<close>, where the subtraction
  wraps.
\<close>

definition sizeof_buffer :: "32 word" where
  "sizeof_buffer = of_nat PX4_STORAGE_SIZE"

text \<open>\<open>&_buffer[loc]\<close> for \<open>n\<close> bytes.\<close>

definition buffer_at :: "px4 \<Rightarrow> nat \<Rightarrow> nat \<Rightarrow> byte list" where
  "buffer_at st loc n = take n (drop loc (buffer st))"

text \<open>\<open>memcpy(&_buffer[loc], src, n)\<close>.\<close>

definition buffer_put :: "px4 \<Rightarrow> nat \<Rightarrow> byte list \<Rightarrow> px4" where
  "buffer_put st loc bs =
     st\<lparr>buffer := take loc (buffer st) @ bs @ drop (loc + length bs) (buffer st)\<rparr>"

definition read_byte :: "io \<Rightarrow> px4 \<Rightarrow> 16 word \<Rightarrow> error + px4 \<times> byte" where
  "read_byte io st loc =
     (if (ucast loc :: 32 word) \<ge> sizeof_buffer then Inr (st, 0)
      else
        (case storage_open io st of
           Inl e \<Rightarrow> Inl e
         | Inr st1 \<Rightarrow> Inr (st1, buffer st1 ! unat loc)))"

definition read_word :: "io \<Rightarrow> px4 \<Rightarrow> 16 word \<Rightarrow> error + px4 \<times> 16 word" where
  "read_word io st loc =
     (if (ucast loc :: 32 word) \<ge> sizeof_buffer - (2 - 1) then Inr (st, 0)
      else
        (case storage_open io st of
           Inl e \<Rightarrow> Inl e
         | Inr st1 \<Rightarrow> Inr (st1, le_word (buffer_at st1 (unat loc) 2))))"

definition read_dword :: "io \<Rightarrow> px4 \<Rightarrow> 16 word \<Rightarrow> error + px4 \<times> 32 word" where
  "read_dword io st loc =
     (if (ucast loc :: 32 word) \<ge> sizeof_buffer - (4 - 1) then Inr (st, 0)
      else
        (case storage_open io st of
           Inl e \<Rightarrow> Inl e
         | Inr st1 \<Rightarrow> Inr (st1, le_word (buffer_at st1 (unat loc) 4))))"

text \<open>
  \<open>read_block\<close>: \<open>dst\<close> is the caller's memory, returned as the call leaves it. Behind
  the guard \<open>memcpy\<close> copies \<open>n\<close> bytes whatever their number: a copy that leaves
  \<open>_buffer\<close> or \<open>dst\<close> is a \<open>Fault\<close>.
\<close>

definition read_block ::
  "io \<Rightarrow> px4 \<Rightarrow> byte list \<Rightarrow> 16 word \<Rightarrow> 32 word \<Rightarrow> error + px4 \<times> byte list" where
  "read_block io st dst loc n =
     (if (ucast loc :: 32 word) \<ge> sizeof_buffer - (n - 1) then Inr (st, dst)
      else
        (case storage_open io st of
           Inl e \<Rightarrow> Inl e
         | Inr st1 \<Rightarrow>
             if unat loc + unat n > PX4_STORAGE_SIZE \<or> unat n > length dst then Inl Fault
             else Inr (st1, buffer_at st1 (unat loc) (unat n) @ drop (unat n) dst)))"

text \<open>
  The tail the four writers share once the new bytes differ from the buffer:
  \<open>_storage_open\<close>, the copy into \<open>_buffer\<close>, \<open>_mark_dirty\<close>.
\<close>

definition store :: "config \<Rightarrow> io \<Rightarrow> px4 \<Rightarrow> 16 word \<Rightarrow> byte list \<Rightarrow> 16 word \<Rightarrow> error + px4" where
  "store g io st loc bs len =
     (case storage_open io st of
        Inl e \<Rightarrow> Inl e
      | Inr st1 \<Rightarrow>
          (case mark_dirty g (buffer_put st1 (unat loc) bs) loc len of
             None \<Rightarrow> Inl Hang
           | Some st2 \<Rightarrow> Inr st2))"

definition write_byte :: "config \<Rightarrow> io \<Rightarrow> px4 \<Rightarrow> 16 word \<Rightarrow> byte \<Rightarrow> error + px4" where
  "write_byte g io st loc v =
     (if (ucast loc :: 32 word) \<ge> sizeof_buffer then Inr st
      else if buffer st ! unat loc \<noteq> v then store g io st loc [v] 1
      else Inr st)"

definition write_word :: "config \<Rightarrow> io \<Rightarrow> px4 \<Rightarrow> 16 word \<Rightarrow> 16 word \<Rightarrow> error + px4" where
  "write_word g io st loc v =
     (if (ucast loc :: 32 word) \<ge> sizeof_buffer - (2 - 1) then Inr st
      else if le_bytes 2 v \<noteq> buffer_at st (unat loc) 2 then store g io st loc (le_bytes 2 v) 2
      else Inr st)"

definition write_dword :: "config \<Rightarrow> io \<Rightarrow> px4 \<Rightarrow> 16 word \<Rightarrow> 32 word \<Rightarrow> error + px4" where
  "write_dword g io st loc v =
     (if (ucast loc :: 32 word) \<ge> sizeof_buffer - (4 - 1) then Inr st
      else if le_bytes 4 v \<noteq> buffer_at st (unat loc) 4 then store g io st loc (le_bytes 4 v) 4
      else Inr st)"

text \<open>
  \<open>write_block\<close>: \<open>src\<close> is the caller's memory. Behind the guard \<open>memcmp\<close> and
  \<open>memcpy\<close> run over \<open>n\<close> bytes whatever their number: when they leave \<open>_buffer\<close> or
  \<open>src\<close> the call is a \<open>Fault\<close>. \<open>_mark_dirty\<close> takes \<open>n\<close> as a \<open>uint16_t\<close>.
\<close>

definition write_block ::
  "config \<Rightarrow> io \<Rightarrow> px4 \<Rightarrow> 16 word \<Rightarrow> byte list \<Rightarrow> 32 word \<Rightarrow> error + px4" where
  "write_block g io st loc src n =
     (if (ucast loc :: 32 word) \<ge> sizeof_buffer - (n - 1) then Inr st
      else if unat loc + unat n > PX4_STORAGE_SIZE \<or> unat n > length src then Inl Fault
      else if take (unat n) src \<noteq> buffer_at st (unat loc) (unat n)
      then store g io st loc (take (unat n) src) (ucast n)
      else Inr st)"

subsection \<open>Flush driver\<close>

text \<open>
  The first loop of \<open>_timer_tick\<close>: the lowest line whose bit is set, or
  \<open>PX4_STORAGE_NUM_LINES\<close>.
\<close>

function first_dirty :: "config \<Rightarrow> 32 word \<Rightarrow> nat \<Rightarrow> nat" where
  "first_dirty g dmask i =
     (if i < PX4_STORAGE_NUM_LINES g
      then (if dmask AND push_bit i 1 \<noteq> 0 then i else first_dirty g dmask (Suc i))
      else i)"
  by pat_completeness auto
termination
  by (relation "measure (\<lambda>(g, dmask, i). PX4_STORAGE_NUM_LINES g - i)") auto

declare first_dirty.simps [simp del]

text \<open>
  The second loop: the number \<open>n\<close> of lines to write and their bits \<open>write_mask\<close>.
\<close>

function count_lines :: "config \<Rightarrow> 32 word \<Rightarrow> nat \<Rightarrow> nat \<Rightarrow> 32 word \<Rightarrow> nat \<times> 32 word" where
  "count_lines g dmask i n write_mask =
     (if i + n < PX4_STORAGE_NUM_LINES g \<and>
         n < drop_bit (PX4_STORAGE_LINE_SHIFT g) (PX4_STORAGE_MAX_WRITE g)
      then
        (if dmask AND push_bit (n + i) 1 = 0 then (n, write_mask)
         else count_lines g dmask i (Suc n) (write_mask OR push_bit (n + i) 1))
      else (n, write_mask))"
  by pat_completeness auto
termination
  by (relation "measure (\<lambda>(g, dmask, i, n, w). PX4_STORAGE_NUM_LINES g - (i + n))") auto

declare count_lines.simps [simp del]

text \<open>
  The part of \<open>_timer_tick\<close> behind a successful \<open>lseek\<close>: clear the bits, write the
  lines, put the bits back when the write fails, and sync when the mask is empty. A
  write that fails leaves the device as it was.
\<close>

definition write_lines :: "io \<Rightarrow> px4 \<Rightarrow> nat \<Rightarrow> nat \<Rightarrow> 32 word \<Rightarrow> px4" where
  "write_lines io st off len write_mask =
     (let st1 = st\<lparr>dirty_mask := dirty_mask st AND NOT write_mask\<rparr>;
          written = (if io Tick_write then None
                     else (case mtd st1 of
                             None \<Rightarrow> None
                           | Some m \<Rightarrow> dev_write off (buffer_at st1 off len) m));
          st2 = (case written of
                   None \<Rightarrow>
                     perf_count (emit [Ev_write off len False, Ev_close]
                       (st1\<lparr>dirty_mask := dirty_mask st1 OR write_mask, fd := - 1\<rparr>))
                 | Some m' \<Rightarrow> emit [Ev_write off len True] (st1\<lparr>mtd := Some m'\<rparr>))
      in
      if dirty_mask st2 = 0
      then (if io Tick_fsync
            then perf_count (emit [Ev_fsync False, Ev_close] (st2\<lparr>fd := - 1\<rparr>))
            else emit [Ev_fsync True] st2)
      else st2)"

text \<open>
  The start of \<open>_timer_tick\<close>: open the device when no descriptor is held. A
  descriptor that \<open>open\<close> returns is 3; a failed \<open>open\<close> leaves \<open>_fd\<close> at -1.
\<close>

definition attempt_open :: "io \<Rightarrow> px4 \<Rightarrow> px4" where
  "attempt_open io st =
     (if fd st = - 1
      then (if io Tick_open \<or> mtd st = None
            then emit [Ev_open False] st
            else emit [Ev_open True] (st\<lparr>fd := 3\<rparr>))
      else st)"

text \<open>\<open>_timer_tick\<close>.\<close>

definition timer_tick :: "config \<Rightarrow> io \<Rightarrow> px4 \<Rightarrow> px4" where
  "timer_tick g io st =
     (if \<not> initialised st \<or> dirty_mask st = 0 then st
      else
        let st1 = attempt_open io st in
        if fd st1 = - 1 then perf_count (perf_end st1)
        else
          let i = first_dirty g (dirty_mask st1) 0 in
          if i = PX4_STORAGE_NUM_LINES g then perf_count (perf_end st1)
          else
            let (n, write_mask) = count_lines g (dirty_mask st1) i 1 (push_bit i 1);
                off = push_bit (PX4_STORAGE_LINE_SHIFT g) i;
                len = push_bit (PX4_STORAGE_LINE_SHIFT g) n
            in
            if io Tick_lseek then perf_end (emit [Ev_lseek off False] st1)
            else perf_end (write_lines io (emit [Ev_lseek off True] st1) off len write_mask))"

text \<open>
  The object as the constructor and static initialisation leave it. The constructor
  sets \<open>_fd\<close> and \<open>_dirty_mask\<close> only; \<open>_initialised\<close>, which the code reads
  before it ever writes it, and \<open>_buffer\<close> are the zeros of an object with static
  storage. The arguments are the device and the legacy file.
\<close>

definition PX4Storage :: "byte list option \<Rightarrow> byte list option \<Rightarrow> px4" where
  "PX4Storage m f =
     \<lparr>fd = - 1, dirty_mask = 0, buffer = replicate PX4_STORAGE_SIZE 0, initialised = False,
      have_mtd = False, perf_storage = 0, perf_errors = 0, mtd = m, old_file = f,
      trace = []\<rparr>"

subsection \<open>Observations and sample inputs\<close>

text \<open>The device writes and the syncs among the events of a trace.\<close>

fun is_write :: "event \<Rightarrow> bool" where
  "is_write (Ev_write off len ok) = True"
| "is_write _ = False"

fun is_fsync :: "event \<Rightarrow> bool" where
  "is_fsync (Ev_fsync ok) = True"
| "is_fsync _ = False"

text \<open>The environment in which every call succeeds, and the one where a single site fails.\<close>

definition no_faults :: io where
  "no_faults s = False"

definition only_fails :: "site \<Rightarrow> io" where
  "only_fails s t = (t = s)"

text \<open>The spec's example geometry: lines of 128 bytes, 32 of them; a cap of four lines.\<close>

definition lines_128 :: config where
  "lines_128 = \<lparr>PX4_STORAGE_LINE_SHIFT = 7, PX4_STORAGE_MAX_WRITE = 512\<rparr>"

text \<open>Lines of 512 bytes, eight of them; a cap of one line.\<close>

definition lines_512 :: config where
  "lines_512 = \<lparr>PX4_STORAGE_LINE_SHIFT = 9, PX4_STORAGE_MAX_WRITE = 512\<rparr>"

text \<open>
  Two devices of 8192 bytes: one never written (no signature), one that carries the
  signature and the byte \<open>b\<close> everywhere below it.
\<close>

definition blank_mtd :: "byte list" where
  "blank_mtd = replicate 8192 0"

definition signed_mtd :: "byte \<Rightarrow> byte list" where
  "signed_mtd b = replicate MTD_SIGNATURE_OFFSET b @ le_bytes 4 MTD_SIGNATURE"

text \<open>
  A store that has been opened on a signed device of zeros, holds its descriptor and
  has the dirty mask \<open>dm\<close>.
\<close>

definition loaded :: "32 word \<Rightarrow> px4" where
  "loaded dm =
     (PX4Storage (Some (signed_mtd 0)) None)
       \<lparr>fd := 3, dirty_mask := dm, initialised := True, have_mtd := True\<rparr>"

text \<open>
  How often \<open>_storage_open\<close> has gone past its guard: each time it does, it calls
  \<open>stat\<close> on the device once.
\<close>

definition opens :: "px4 \<Rightarrow> nat" where
  "opens st = count_list (trace st) Ev_stat_mtd"

text \<open>
  The accessor calls as values, with the state each leaves behind, so that a property
  can speak of an accessor call of any kind. \<open>in_range\<close>: the bytes the call names lie
  in the region (and in the caller's memory). \<open>rejected\<close>: they do not, and the length
  of a block is at most one more than the region holds. \<open>differs\<close>: the call is a read,
  or a write whose bytes are not the ones in the buffer.
\<close>

datatype call =
    Read_byte "16 word" | Read_word "16 word" | Read_dword "16 word"
  | Read_block "byte list" "16 word" "32 word"
  | Write_byte "16 word" byte | Write_word "16 word" "16 word" | Write_dword "16 word" "32 word"
  | Write_block "16 word" "byte list" "32 word"

definition state_of :: "error + px4 \<times> 'a \<Rightarrow> error + px4" where
  "state_of r = (case r of Inl e \<Rightarrow> Inl e | Inr p \<Rightarrow> Inr (fst p))"

fun run :: "config \<Rightarrow> io \<Rightarrow> px4 \<Rightarrow> call \<Rightarrow> error + px4" where
  "run g io st (Read_byte loc) = state_of (read_byte io st loc)"
| "run g io st (Read_word loc) = state_of (read_word io st loc)"
| "run g io st (Read_dword loc) = state_of (read_dword io st loc)"
| "run g io st (Read_block dst loc n) = state_of (read_block io st dst loc n)"
| "run g io st (Write_byte loc v) = write_byte g io st loc v"
| "run g io st (Write_word loc v) = write_word g io st loc v"
| "run g io st (Write_dword loc v) = write_dword g io st loc v"
| "run g io st (Write_block loc src n) = write_block g io st loc src n"

fun in_range :: "call \<Rightarrow> bool" where
  "in_range (Read_byte loc) = (unat loc + 1 \<le> PX4_STORAGE_SIZE)"
| "in_range (Read_word loc) = (unat loc + 2 \<le> PX4_STORAGE_SIZE)"
| "in_range (Read_dword loc) = (unat loc + 4 \<le> PX4_STORAGE_SIZE)"
| "in_range (Read_block dst loc n) = (unat loc + unat n \<le> PX4_STORAGE_SIZE \<and> unat n \<le> length dst)"
| "in_range (Write_byte loc v) = (unat loc + 1 \<le> PX4_STORAGE_SIZE)"
| "in_range (Write_word loc v) = (unat loc + 2 \<le> PX4_STORAGE_SIZE)"
| "in_range (Write_dword loc v) = (unat loc + 4 \<le> PX4_STORAGE_SIZE)"
| "in_range (Write_block loc src n) = (unat loc + unat n \<le> PX4_STORAGE_SIZE \<and> unat n \<le> length src)"

fun rejected :: "call \<Rightarrow> bool" where
  "rejected (Read_byte loc) = (PX4_STORAGE_SIZE < unat loc + 1)"
| "rejected (Read_word loc) = (PX4_STORAGE_SIZE < unat loc + 2)"
| "rejected (Read_dword loc) = (PX4_STORAGE_SIZE < unat loc + 4)"
| "rejected (Read_block dst loc n) =
     (PX4_STORAGE_SIZE < unat loc + unat n \<and> unat n \<le> PX4_STORAGE_SIZE + 1)"
| "rejected (Write_byte loc v) = (PX4_STORAGE_SIZE < unat loc + 1)"
| "rejected (Write_word loc v) = (PX4_STORAGE_SIZE < unat loc + 2)"
| "rejected (Write_dword loc v) = (PX4_STORAGE_SIZE < unat loc + 4)"
| "rejected (Write_block loc src n) =
     (PX4_STORAGE_SIZE < unat loc + unat n \<and> unat n \<le> PX4_STORAGE_SIZE + 1)"

fun differs :: "px4 \<Rightarrow> call \<Rightarrow> bool" where
  "differs st (Write_byte loc v) = (buffer st ! unat loc \<noteq> v)"
| "differs st (Write_word loc v) = (le_bytes 2 v \<noteq> buffer_at st (unat loc) 2)"
| "differs st (Write_dword loc v) = (le_bytes 4 v \<noteq> buffer_at st (unat loc) 4)"
| "differs st (Write_block loc src n) = (take (unat n) src \<noteq> buffer_at st (unat loc) (unat n))"
| "differs st c = True"

section \<open>Properties\<close>

subsection \<open>The two loops of the flush driver\<close>

lemma and_bit_test: "(x AND push_bit i 1 \<noteq> 0) \<longleftrightarrow> bit x i" for x :: "32 word"
proof
  assume "x AND push_bit i 1 \<noteq> 0"
  then obtain k where "bit (x AND push_bit i 1) k"
    by (auto simp: bit_eq_iff)
  then show "bit x i"
    by (auto simp: bit_simps)
next
  assume b: "bit x i"
  then have "i < 32" by (auto dest: bit_imp_le_length)
  with b have "bit (x AND push_bit i 1) i"
    by (simp add: bit_simps)
  show "x AND push_bit i 1 \<noteq> 0"
  proof
    assume "x AND push_bit i 1 = 0"
    then have "\<not> bit (x AND push_bit i 1) i" by simp
    with \<open>bit (x AND push_bit i 1) i\<close> show False by simp
  qed
qed

lemma first_dirty_bounds:
  "i \<le> first_dirty g m i \<and> first_dirty g m i \<le> max i (PX4_STORAGE_NUM_LINES g)"
proof (induction g m i rule: first_dirty.induct)
  case (1 g m i)
  show ?case
  proof (cases "i < PX4_STORAGE_NUM_LINES g \<and> m AND push_bit i 1 = 0")
    case True
    with "1.IH" show ?thesis by (subst (1 2) first_dirty.simps) auto
  next
    case False
    then show ?thesis by (subst (1 2) first_dirty.simps) auto
  qed
qed

lemma first_dirty_below:
  "i \<le> k \<Longrightarrow> k < first_dirty g m i \<Longrightarrow> \<not> bit m k"
proof (induction g m i rule: first_dirty.induct)
  case (1 g m i)
  show ?case
  proof (cases "i < PX4_STORAGE_NUM_LINES g \<and> m AND push_bit i 1 = 0")
    case True
    then have eq: "first_dirty g m i = first_dirty g m (Suc i)"
      by (subst first_dirty.simps) simp
    show ?thesis
    proof (cases "k = i")
      case True
      with \<open>i < PX4_STORAGE_NUM_LINES g \<and> m AND push_bit i 1 = 0\<close> show ?thesis
        using and_bit_test [of m i] by simp
    next
      case False
      with "1.prems" have "Suc i \<le> k" by simp
      with "1.IH" True "1.prems" eq show ?thesis by simp
    qed
  next
    case False
    then have "first_dirty g m i = i"
      by (subst first_dirty.simps) auto
    with "1.prems" show ?thesis by simp
  qed
qed

lemma first_dirty_hit:
  "first_dirty g m i < PX4_STORAGE_NUM_LINES g \<Longrightarrow> bit m (first_dirty g m i)"
proof (induction g m i rule: first_dirty.induct)
  case (1 g m i)
  show ?case
  proof (cases "i < PX4_STORAGE_NUM_LINES g \<and> m AND push_bit i 1 = 0")
    case True
    then have eq: "first_dirty g m i = first_dirty g m (Suc i)"
      by (subst first_dirty.simps) simp
    with "1.IH" True "1.prems" show ?thesis by simp
  next
    case False
    then have eq: "first_dirty g m i = i"
      by (subst first_dirty.simps) auto
    with "1.prems" False show ?thesis
      using and_bit_test [of m i] by auto
  qed
qed

lemma first_dirty_found:
  assumes "bit m k" "i \<le> k" "k < PX4_STORAGE_NUM_LINES g"
  shows "first_dirty g m i < PX4_STORAGE_NUM_LINES g"
proof (rule ccontr)
  assume "\<not> first_dirty g m i < PX4_STORAGE_NUM_LINES g"
  then have "k < first_dirty g m i" using assms by simp
  with first_dirty_below [OF assms(2)] assms(1) show False by blast
qed



lemma count_lines_step:
  "i + n < PX4_STORAGE_NUM_LINES g \<Longrightarrow>
   n < drop_bit (PX4_STORAGE_LINE_SHIFT g) (PX4_STORAGE_MAX_WRITE g) \<Longrightarrow> bit m (n + i) \<Longrightarrow>
   count_lines g m i n wm = count_lines g m i (Suc n) (wm OR push_bit (n + i) 1)"
  using and_bit_test [of m "n + i"] by (subst count_lines.simps) auto

lemma count_lines_stop:
  "\<not> (i + n < PX4_STORAGE_NUM_LINES g \<and>
      n < drop_bit (PX4_STORAGE_LINE_SHIFT g) (PX4_STORAGE_MAX_WRITE g) \<and> bit m (n + i)) \<Longrightarrow>
   count_lines g m i n wm = (n, wm)"
  using and_bit_test [of m "n + i"] by (subst count_lines.simps) auto

lemma count_lines_run:
  "count_lines g m i n wm = (n', wm') \<Longrightarrow>
   n \<le> n' \<and>
   n' \<le> max n (drop_bit (PX4_STORAGE_LINE_SHIFT g) (PX4_STORAGE_MAX_WRITE g)) \<and>
   i + n' \<le> max (i + n) (PX4_STORAGE_NUM_LINES g) \<and>
   (\<forall>k. i + n \<le> k \<and> k < i + n' \<longrightarrow> bit m k) \<and>
   (\<forall>k. bit wm' k \<longleftrightarrow> bit wm k \<or> i + n \<le> k \<and> k < i + n') \<and>
   \<not> (i + n' < PX4_STORAGE_NUM_LINES g \<and>
      n' < drop_bit (PX4_STORAGE_LINE_SHIFT g) (PX4_STORAGE_MAX_WRITE g) \<and> bit m (n' + i))"
proof (induction g m i n wm rule: count_lines.induct)
  case (1 g m i n wm)
  show ?case
  proof (cases "i + n < PX4_STORAGE_NUM_LINES g \<and>
      n < drop_bit (PX4_STORAGE_LINE_SHIFT g) (PX4_STORAGE_MAX_WRITE g) \<and> bit m (n + i)")
    case True
    then have b: "bit m (n + i)" and nz: "m AND push_bit (n + i) 1 \<noteq> 0"
      using and_bit_test [of m "n + i"] by auto
    from True "1.prems" have eq: "count_lines g m i (Suc n) (wm OR push_bit (n + i) 1) = (n', wm')"
      by (simp add: count_lines_step)
    from b have lt: "n + i < 32" by (auto dest: bit_imp_le_length)
    have ih: "Suc n \<le> n' \<and>
      n' \<le> max (Suc n) (drop_bit (PX4_STORAGE_LINE_SHIFT g) (PX4_STORAGE_MAX_WRITE g)) \<and>
      i + n' \<le> max (i + Suc n) (PX4_STORAGE_NUM_LINES g) \<and>
      (\<forall>k. i + Suc n \<le> k \<and> k < i + n' \<longrightarrow> bit m k) \<and>
      (\<forall>k. bit wm' k \<longleftrightarrow> bit (wm OR push_bit (n + i) 1) k \<or> i + Suc n \<le> k \<and> k < i + n') \<and>
      \<not> (i + n' < PX4_STORAGE_NUM_LINES g \<and>
        n' < drop_bit (PX4_STORAGE_LINE_SHIFT g) (PX4_STORAGE_MAX_WRITE g) \<and> bit m (n' + i))"
      using "1.IH" [OF _ _ eq] True nz by simp
    have k1: "\<forall>k. i + n \<le> k \<and> k < i + n' \<longrightarrow> bit m k"
    proof (intro allI impI)
      fix k assume "i + n \<le> k \<and> k < i + n'"
      then have "k = n + i \<or> (i + Suc n \<le> k \<and> k < i + n')" by auto
      with b ih show "bit m k" by auto
    qed
    have k2: "\<forall>k. bit wm' k \<longleftrightarrow> bit wm k \<or> i + n \<le> k \<and> k < i + n'"
    proof
      fix k
      have "bit (push_bit (n + i) (1 :: 32 word)) k \<longleftrightarrow> k = n + i"
        using lt by (auto simp: bit_simps)
      then have "bit (wm OR push_bit (n + i) 1) k \<longleftrightarrow> bit wm k \<or> k = n + i"
        by (simp add: bit_simps)
      with ih have "bit wm' k \<longleftrightarrow> (bit wm k \<or> k = n + i) \<or> i + Suc n \<le> k \<and> k < i + n'"
        by simp
      with ih show "bit wm' k \<longleftrightarrow> bit wm k \<or> i + n \<le> k \<and> k < i + n'"
        by auto
    qed
    from ih True k1 k2 show ?thesis by auto
  next
    case False
    with "1.prems" have "n' = n" "wm' = wm"
      by (simp_all add: count_lines_stop)
    with False show ?thesis by (auto simp: add.commute)
  qed
qed

lemma timer_tick_run:
  assumes ini: "initialised st" and nz: "dirty_mask st \<noteq> 0"
    and held: "fd st \<noteq> - 1 \<or> \<not> io Tick_open \<and> mtd st \<noteq> None"
    and sel: "first_dirty g (dirty_mask st) 0 < PX4_STORAGE_NUM_LINES g"
  shows "\<exists>i n wm.
    bit (dirty_mask st) i \<and> (\<forall>k<i. \<not> bit (dirty_mask st) k) \<and>
    0 < n \<and> n \<le> max 1 (drop_bit (PX4_STORAGE_LINE_SHIFT g) (PX4_STORAGE_MAX_WRITE g)) \<and>
    i + n \<le> PX4_STORAGE_NUM_LINES g \<and>
    (\<forall>k. bit wm k \<longleftrightarrow> i \<le> k \<and> k < i + n) \<and>
    (\<forall>k. i \<le> k \<and> k < i + n \<longrightarrow> bit (dirty_mask st) k) \<and>
    \<not> (i + n < PX4_STORAGE_NUM_LINES g \<and>
        n < drop_bit (PX4_STORAGE_LINE_SHIFT g) (PX4_STORAGE_MAX_WRITE g) \<and>
        bit (dirty_mask st) (i + n)) \<and>
    timer_tick g io st =
       perf_end
         (if io Tick_lseek
          then emit [Ev_lseek (push_bit (PX4_STORAGE_LINE_SHIFT g) i) False] (attempt_open io st)
          else write_lines io (emit [Ev_lseek (push_bit (PX4_STORAGE_LINE_SHIFT g) i) True] (attempt_open io st))
                 (push_bit (PX4_STORAGE_LINE_SHIFT g) i) (push_bit (PX4_STORAGE_LINE_SHIFT g) n) wm)"
proof -
  define m where "m = dirty_mask st"
  define i where "i = first_dirty g m 0"
  define r where "r = count_lines g m i 1 (push_bit i 1)"
  define n where "n = fst r"
  define wm where "wm = snd r"
  have r: "count_lines g m i 1 (push_bit i 1) = (n, wm)"
    by (simp add: r_def n_def wm_def)
  have ilt: "i < PX4_STORAGE_NUM_LINES g"
    using sel by (simp add: i_def m_def)
  then have bi: "bit m i"
    unfolding i_def by (rule first_dirty_hit)
  then have i32: "i < 32" by (auto dest: bit_imp_le_length)
  have low: "\<forall>k<i. \<not> bit m k"
    unfolding i_def using first_dirty_below [of 0 _ g m] by simp
  note run = count_lines_run [OF r]
  have n0: "0 < n" using run by simp
  have ncap: "n \<le> max 1 (drop_bit (PX4_STORAGE_LINE_SHIFT g) (PX4_STORAGE_MAX_WRITE g))"
    using run by simp
  have nnum: "i + n \<le> PX4_STORAGE_NUM_LINES g"
    using run ilt by auto
  have bits: "\<forall>k. i \<le> k \<and> k < i + n \<longrightarrow> bit m k"
  proof (intro allI impI)
    fix k assume a: "i \<le> k \<and> k < i + n"
    then have "k = i \<or> (i + 1 \<le> k \<and> k < i + n)" by auto
    with bi run show "bit m k" by auto
  qed
  have wmb: "\<forall>k. bit wm k \<longleftrightarrow> i \<le> k \<and> k < i + n"
  proof
    fix k
    have "bit (push_bit i (1 :: 32 word)) k \<longleftrightarrow> k = i"
      using i32 by (auto simp: bit_simps)
    with run have "bit wm k \<longleftrightarrow> k = i \<or> i + 1 \<le> k \<and> k < i + n" by simp
    with n0 show "bit wm k \<longleftrightarrow> i \<le> k \<and> k < i + n" by auto
  qed
  have mx: "\<not> (i + n < PX4_STORAGE_NUM_LINES g \<and>
        n < drop_bit (PX4_STORAGE_LINE_SHIFT g) (PX4_STORAGE_MAX_WRITE g) \<and> bit m (i + n))"
    using run by (simp add: add.commute)
  have fd1: "fd (attempt_open io st) \<noteq> - 1"
    using held by (auto simp: attempt_open_def emit_def)
  have dm: "dirty_mask (attempt_open io st) = m"
    by (simp add: attempt_open_def emit_def m_def)
  have tick: "timer_tick g io st =
       perf_end
         (if io Tick_lseek
          then emit [Ev_lseek (push_bit (PX4_STORAGE_LINE_SHIFT g) i) False] (attempt_open io st)
          else write_lines io (emit [Ev_lseek (push_bit (PX4_STORAGE_LINE_SHIFT g) i) True] (attempt_open io st))
                 (push_bit (PX4_STORAGE_LINE_SHIFT g) i) (push_bit (PX4_STORAGE_LINE_SHIFT g) n) wm)"
    unfolding timer_tick_def Let_def dm
    using ini nz fd1 ilt r by (simp add: i_def [symmetric] m_def [symmetric])
  show ?thesis
    using bi low n0 ncap nnum wmb bits mx tick
    by (intro exI [of _ i] exI [of _ n] exI [of _ wm]) (simp add: m_def)
qed

lemma first_dirty_selects:
  assumes "dirty_mask st \<noteq> 0"
    and "\<forall>k. bit (dirty_mask st) k \<longrightarrow> k < PX4_STORAGE_NUM_LINES g"
  shows "first_dirty g (dirty_mask st) 0 < PX4_STORAGE_NUM_LINES g"
proof -
  from assms(1) obtain k where k: "bit (dirty_mask st) k"
    by (auto simp: bit_eq_iff)
  with assms(2) have "k < PX4_STORAGE_NUM_LINES g" by simp
  with k show ?thesis
    by (intro first_dirty_found [of "dirty_mask st" k]) simp_all
qed

subsection \<open>Writing a run\<close>

lemma restore_mask:
  "\<forall>k. bit wm k \<longrightarrow> bit m k \<Longrightarrow> (m AND NOT wm) OR wm = m" for m wm :: "32 word"
  by (rule bit_eqI) (auto simp: bit_simps)

lemma restore_mask_nonzero:
  "m \<noteq> 0 \<Longrightarrow> (m AND NOT wm) OR wm \<noteq> 0" for m wm :: "32 word"
proof
  assume "m \<noteq> 0" and z: "(m AND NOT wm) OR wm = 0"
  then obtain k where "bit m k" by (auto simp: bit_eq_iff)
  then have "bit ((m AND NOT wm) OR wm) k" by (auto simp: bit_simps dest: bit_imp_le_length)
  with z show False by simp
qed

lemma write_lines_failed:
  assumes "io Tick_write" "dirty_mask st \<noteq> 0"
  shows "write_lines io st off len wm =
     perf_count (emit [Ev_write off len False, Ev_close]
       (st\<lparr>dirty_mask := (dirty_mask st AND NOT wm) OR wm, fd := - 1\<rparr>))"
  using assms restore_mask_nonzero [of "dirty_mask st" wm]
  by (simp add: write_lines_def Let_def perf_count_def emit_def)

lemma write_lines_syncs:
  assumes "dirty_mask st \<noteq> 0"
  shows "\<exists>evs. trace (write_lines io st off len wm) = trace st @ evs \<and>
     length (filter is_fsync evs) =
       (if (\<exists>off len. Ev_write off len True \<in> set evs) \<and> dirty_mask (write_lines io st off len wm) = 0
        then 1 else 0)"
  using assms restore_mask_nonzero [of "dirty_mask st" wm]
  by (auto simp: write_lines_def Let_def perf_count_def emit_def split: option.splits)

lemma write_lines_mask:
  "dirty_mask (write_lines io st off len wm) = dirty_mask st AND NOT wm \<or>
   dirty_mask (write_lines io st off len wm) = (dirty_mask st AND NOT wm) OR wm"
  by (simp add: write_lines_def Let_def perf_count_def emit_def split: option.splits)

lemma write_lines_keeps:
  assumes "bit (dirty_mask st) k" "\<not> bit wm k"
  shows "bit (dirty_mask (write_lines io st off len wm)) k"
proof -
  from assms have "k < 32" by (auto dest: bit_imp_le_length)
  with assms have "bit (dirty_mask st AND NOT wm) k" "bit ((dirty_mask st AND NOT wm) OR wm) k"
    by (simp_all add: bit_simps)
  with write_lines_mask [of io st off len wm] show ?thesis by auto
qed

lemma write_lines_trace:
  "\<exists>ok evs. trace (write_lines io st off len wm) = trace st @ Ev_write off len ok # evs \<and>
      filter is_write evs = []"
  by (auto simp: write_lines_def Let_def perf_count_def emit_def split: option.splits)

lemma write_lines_written:
  assumes "\<not> io Tick_write" and "mtd st = Some m"
    and "off + len \<le> length m" and "off + len \<le> length (buffer st)"
  shows "dirty_mask (write_lines io st off len wm) = dirty_mask st AND NOT wm \<and>
     mtd (write_lines io st off len wm) =
       Some (take off m @ buffer_at st off len @ drop (off + len) m) \<and>
     buffer (write_lines io st off len wm) = buffer st \<and>
     (\<exists>evs. trace (write_lines io st off len wm) = trace st @ Ev_write off len True # evs \<and>
        filter is_write evs = [])"
proof -
  have l: "length (buffer_at st off len) = len"
    using assms(4) by (simp add: buffer_at_def)
  have b: "buffer_at (st\<lparr>dirty_mask := x\<rparr>) off len = buffer_at st off len" for x
    by (simp add: buffer_at_def)
  have d: "dev_write off (buffer_at st off len) m =
      Some (take off m @ buffer_at st off len @ drop (off + len) m)"
    using assms(3) l by (simp add: dev_write_def)
  show ?thesis
    using assms(1,2)
    by (simp add: write_lines_def Let_def perf_count_def emit_def b d)
qed

lemma write_lines_failed_trace:
  assumes "io Tick_write" and "dirty_mask st \<noteq> 0" and "\<forall>k. bit wm k \<longrightarrow> bit (dirty_mask st) k"
  shows "dirty_mask (write_lines io st off len wm) = dirty_mask st \<and>
     trace (write_lines io st off len wm) = trace st @ [Ev_write off len False, Ev_close]"
  using write_lines_failed [where io = io, OF assms(1,2), of off len wm] restore_mask [OF assms(3)]
  by (simp add: perf_count_def emit_def)

lemma lines_within_cap:
  assumes "config_ok g" "0 < n"
    and "n \<le> max 1 (drop_bit (PX4_STORAGE_LINE_SHIFT g) (PX4_STORAGE_MAX_WRITE g))"
  shows "n * PX4_STORAGE_LINE_SIZE g \<le> PX4_STORAGE_MAX_WRITE g"
proof -
  let ?L = "PX4_STORAGE_LINE_SIZE g" and ?M = "PX4_STORAGE_MAX_WRITE g"
  have L: "?L \<le> ?M" "0 < ?L"
    using assms(1) by (simp_all add: config_ok_def PX4_STORAGE_LINE_SIZE_def)
  have cap: "drop_bit (PX4_STORAGE_LINE_SHIFT g) ?M = ?M div ?L"
    by (simp add: drop_bit_eq_div PX4_STORAGE_LINE_SIZE_def)
  from L have "1 \<le> ?M div ?L"
    by (simp add: Suc_le_eq div_greater_zero_iff)
  with assms(3) cap have "n \<le> ?M div ?L" by simp
  then have "n * ?L \<le> (?M div ?L) * ?L" by (rule mult_le_mono1)
  also have "\<dots> \<le> ?M" by simp
  finally show ?thesis .
qed

lemma attempt_open_frame:
  "dirty_mask (attempt_open io st) = dirty_mask st" "buffer (attempt_open io st) = buffer st"
  "mtd (attempt_open io st) = mtd st" "perf_errors (attempt_open io st) = perf_errors st"
  "initialised (attempt_open io st) = initialised st"
  by (simp_all add: attempt_open_def emit_def)


lemma attempt_open_trace:
  "\<exists>evs. trace (attempt_open io st) = trace st @ evs \<and>
     filter is_fsync evs = [] \<and> (\<forall>off len. Ev_write off len True \<notin> set evs)"
  by (simp add: attempt_open_def emit_def)

lemma timer_tick_cases:
  assumes "initialised st" "dirty_mask st \<noteq> 0"
  shows "timer_tick g io st = perf_count (perf_end (attempt_open io st)) \<or>
     (\<exists>off. timer_tick g io st = perf_end (emit [Ev_lseek off False] (attempt_open io st))) \<or>
     (\<exists>off len wm. timer_tick g io st =
        perf_end (write_lines io (emit [Ev_lseek off True] (attempt_open io st)) off len wm))"
  using assms
  by (auto simp: timer_tick_def Let_def attempt_open_def split: prod.splits)


text \<open>A flush invocation sets no bit that was clear.\<close>

lemma timer_tick_clears_only:
  "bit (dirty_mask (timer_tick g io st)) k \<Longrightarrow> bit (dirty_mask st) k"
proof (cases "initialised st \<and> dirty_mask st \<noteq> 0 \<and> fd (attempt_open io st) \<noteq> - 1 \<and>
    first_dirty g (dirty_mask st) 0 < PX4_STORAGE_NUM_LINES g")
  case False
  assume b: "bit (dirty_mask (timer_tick g io st)) k"
  from first_dirty_bounds [of 0 g "dirty_mask st"]
  have "first_dirty g (dirty_mask st) 0 \<le> PX4_STORAGE_NUM_LINES g" by simp
  with False have "dirty_mask (timer_tick g io st) = dirty_mask st"
    by (auto simp: timer_tick_def Let_def perf_count_def perf_end_def attempt_open_frame)
  with b show ?thesis by simp
next
  case True
  assume b: "bit (dirty_mask (timer_tick g io st)) k"
  let ?sh = "PX4_STORAGE_LINE_SHIFT g"
  from True have ini: "initialised st" and nz: "dirty_mask st \<noteq> 0"
    and sel: "first_dirty g (dirty_mask st) 0 < PX4_STORAGE_NUM_LINES g" by simp_all
  from True have held: "fd st \<noteq> - 1 \<or> \<not> io Tick_open \<and> mtd st \<noteq> None"
    by (auto simp: attempt_open_def emit_def split: if_splits)
  obtain i n wm where sub: "\<forall>k. bit wm k \<longleftrightarrow> i \<le> k \<and> k < i + n"
    and allset: "\<forall>k. i \<le> k \<and> k < i + n \<longrightarrow> bit (dirty_mask st) k"
    and tick: "timer_tick g io st =
       perf_end
         (if io Tick_lseek
          then emit [Ev_lseek (push_bit ?sh i) False] (attempt_open io st)
          else write_lines io (emit [Ev_lseek (push_bit ?sh i) True] (attempt_open io st))
                 (push_bit ?sh i) (push_bit ?sh n) wm)"
    using timer_tick_run [where st = st and io = io and g = g, OF ini nz held sel]
    by (elim exE conjE) (rule that, assumption+)
  from sub allset have "\<forall>k. bit wm k \<longrightarrow> bit (dirty_mask st) k" by simp
  then have restored: "(dirty_mask st AND NOT wm) OR wm = dirty_mask st"
    by (rule restore_mask)
  let ?s1 = "emit [Ev_lseek (push_bit ?sh i) True] (attempt_open io st)"
  have m1: "dirty_mask ?s1 = dirty_mask st"
    by (simp add: emit_def attempt_open_frame)
  show ?thesis
  proof (cases "io Tick_lseek")
    case True
    with tick b show ?thesis
      by (simp add: perf_end_def emit_def attempt_open_frame)
  next
    case False
    with tick have "dirty_mask (timer_tick g io st) =
        dirty_mask (write_lines io ?s1 (push_bit ?sh i) (push_bit ?sh n) wm)"
      by (simp add: perf_end_def)
    with write_lines_mask [of io ?s1 "push_bit ?sh i" "push_bit ?sh n" wm] m1 restored
    have "dirty_mask (timer_tick g io st) = dirty_mask st AND NOT wm \<or>
        dirty_mask (timer_tick g io st) = dirty_mask st"
      by simp
    with b show ?thesis by (auto simp: bit_simps)
  qed
qed

subsection \<open>Bytes and guards\<close>

lemma length_le_bytes: "length (le_bytes k w) = k"
  by (induction k arbitrary: w) simp_all

lemma unat_loc_less: "unat loc < 65536" for loc :: "16 word"
  using unsigned_less [of loc, where 'a = nat] by simp

lemma unat_loc32: "unat (ucast loc :: 32 word) = unat loc" for loc :: "16 word"
proof -
  have "unat loc < 2 ^ 32" using unat_loc_less [of loc] by simp
  then show ?thesis by (simp add: unsigned_ucast_eq take_bit_nat_eq_self)
qed

lemma guard_byte:
  "(ucast loc :: 32 word) \<ge> sizeof_buffer \<longleftrightarrow> PX4_STORAGE_SIZE \<le> unat loc" for loc :: "16 word"
  by (simp add: word_le_nat_alt unat_loc32 sizeof_buffer_def PX4_STORAGE_SIZE_def)

lemma guard_word:
  "(ucast loc :: 32 word) \<ge> sizeof_buffer - (2 - 1) \<longleftrightarrow> PX4_STORAGE_SIZE < unat loc + 2"
  for loc :: "16 word"
  by (auto simp add: word_le_nat_alt unat_loc32 sizeof_buffer_def PX4_STORAGE_SIZE_def)

lemma guard_dword:
  "(ucast loc :: 32 word) \<ge> sizeof_buffer - (4 - 1) \<longleftrightarrow> PX4_STORAGE_SIZE < unat loc + 4"
  for loc :: "16 word"
  by (auto simp add: word_le_nat_alt unat_loc32 sizeof_buffer_def PX4_STORAGE_SIZE_def)

lemma guard_block:
  fixes loc :: "16 word" and n :: "32 word"
  assumes "unat n \<le> PX4_STORAGE_SIZE + 1"
  shows "(ucast loc :: 32 word) \<ge> sizeof_buffer - (n - 1) \<longleftrightarrow> PX4_STORAGE_SIZE < unat loc + unat n"
proof -
  have e: "sizeof_buffer - (n - 1) = 4097 - n"
    by (simp add: sizeof_buffer_def PX4_STORAGE_SIZE_def)
  from assms have "n \<le> 4097"
    by (simp add: word_le_nat_alt PX4_STORAGE_SIZE_def)
  then have "unat (4097 - n) = 4097 - unat n"
    by (simp add: unat_sub)
  with assms show ?thesis
    by (auto simp: e word_le_nat_alt unat_loc32 PX4_STORAGE_SIZE_def)
qed

lemma guard_block_wraps:
  "\<not> (ucast (0 :: 16 word) :: 32 word) \<ge> sizeof_buffer - (4098 - 1)"
  by (simp add: sizeof_buffer_def PX4_STORAGE_SIZE_def)

subsection \<open>The dirty tracker returns\<close>

lemma line_size_bounds:
  assumes "config_ok g"
  shows "0 < PX4_STORAGE_LINE_SIZE g" "PX4_STORAGE_LINE_SIZE g \<le> 4096"
    "unat (of_nat (PX4_STORAGE_LINE_SIZE g) :: 16 word) = PX4_STORAGE_LINE_SIZE g"
proof -
  let ?s = "PX4_STORAGE_LINE_SHIFT g"
  from assms have "?s \<le> 12" by (simp add: config_ok_def)
  then have "(2::nat) ^ ?s \<le> 2 ^ 12" by (intro power_increasing) simp_all
  then show le: "PX4_STORAGE_LINE_SIZE g \<le> 4096"
    by (simp add: PX4_STORAGE_LINE_SIZE_def)
  show "0 < PX4_STORAGE_LINE_SIZE g" by (simp add: PX4_STORAGE_LINE_SIZE_def)
  from le have "PX4_STORAGE_LINE_SIZE g < 2 ^ 16" by simp
  then show "unat (of_nat (PX4_STORAGE_LINE_SIZE g) :: 16 word) = PX4_STORAGE_LINE_SIZE g"
    by (simp add: unat_of_nat)
qed

lemma mark_dirty_loop_returns:
  assumes "config_ok g" and "unat e \<le> PX4_STORAGE_SIZE"
  shows "\<exists>m'. mark_dirty_loop g e loc m = Some m'"
proof (induction "unat e - unat loc" arbitrary: loc m rule: less_induct)
  case less
  show ?case
  proof (cases "loc < e")
    case False
    then show ?thesis by (subst mark_dirty_loop.simps) simp
  next
    case True
    let ?L = "of_nat (PX4_STORAGE_LINE_SIZE g) :: 16 word"
    note L = line_size_bounds [OF assms(1)]
    from True have lt: "unat loc < unat e" by (simp add: word_less_nat_alt)
    with assms(2) L have "unat loc + unat ?L < 2 ^ 16"
      by (simp add: PX4_STORAGE_SIZE_def)
    then have "unat (loc + ?L) = unat loc + unat ?L"
      using unat_add_lem [of loc ?L] by simp
    with L lt have "unat e - unat (loc + ?L) < unat e - unat loc" by simp
    from less [OF this] show ?thesis
      by (subst mark_dirty_loop.simps) (simp add: True Let_def)
  qed
qed

lemma mark_dirty_returns:
  assumes "config_ok g" and "unat loc + unat len \<le> PX4_STORAGE_SIZE"
  shows "\<exists>dm. mark_dirty g st loc len = Some (st\<lparr>dirty_mask := dm\<rparr>)"
proof -
  from assms(2) have "unat loc + unat len < 2 ^ 16" by (simp add: PX4_STORAGE_SIZE_def)
  then have "unat (loc + len) = unat loc + unat len"
    using unat_add_lem [of loc len] by simp
  with assms(2) have "unat (loc + len) \<le> PX4_STORAGE_SIZE" by simp
  from mark_dirty_loop_returns [OF assms(1) this, of loc "dirty_mask st"]
  show ?thesis by (auto simp: mark_dirty_def)
qed

text \<open>
  In range, the loop sets bits of lines only, keeps the bits that are set, and marks the
  line of the first byte.
\<close>

lemma lines_times_size:
  assumes "config_ok g"
  shows "PX4_STORAGE_NUM_LINES g * PX4_STORAGE_LINE_SIZE g = PX4_STORAGE_SIZE"
proof -
  from assms have "PX4_STORAGE_LINE_SHIFT g \<le> 12" by (simp add: config_ok_def)
  then have "(2::nat) ^ PX4_STORAGE_LINE_SHIFT g dvd 2 ^ 12" by (rule le_imp_power_dvd)
  then show ?thesis
    by (simp add: PX4_STORAGE_NUM_LINES_def PX4_STORAGE_LINE_SIZE_def PX4_STORAGE_SIZE_def)
qed

lemma num_lines_le_32:
  assumes "config_ok g"
  shows "PX4_STORAGE_NUM_LINES g \<le> 32"
proof -
  let ?s = "PX4_STORAGE_LINE_SHIFT g"
  from assms have "7 \<le> ?s" by (simp add: config_ok_def)
  then have "(2::nat) ^ 7 \<le> 2 ^ ?s" by (intro power_increasing) simp_all
  then have "PX4_STORAGE_SIZE div 2 ^ ?s \<le> PX4_STORAGE_SIZE div 2 ^ 7"
    by (intro div_le_mono2) simp_all
  then show ?thesis
    by (simp add: PX4_STORAGE_NUM_LINES_def PX4_STORAGE_LINE_SIZE_def PX4_STORAGE_SIZE_def)
qed

lemma line_of_loc:
  fixes loc :: "16 word"
  assumes "config_ok g" and "unat loc < PX4_STORAGE_SIZE"
  shows "unat (ucast (drop_bit (PX4_STORAGE_LINE_SHIFT g) loc) :: 8 word) =
      unat loc div PX4_STORAGE_LINE_SIZE g"
    and "unat loc div PX4_STORAGE_LINE_SIZE g < PX4_STORAGE_NUM_LINES g"
proof -
  let ?s = "PX4_STORAGE_LINE_SHIFT g"
  from assms(2) have "unat loc < PX4_STORAGE_NUM_LINES g * PX4_STORAGE_LINE_SIZE g"
    by (simp add: lines_times_size [OF assms(1)])
  then show lt: "unat loc div PX4_STORAGE_LINE_SIZE g < PX4_STORAGE_NUM_LINES g"
    by (rule less_mult_imp_div_less)
  from lt num_lines_le_32 [OF assms(1)] have "unat loc div 2 ^ ?s < 2 ^ 8"
    by (simp add: PX4_STORAGE_LINE_SIZE_def)
  moreover have "unat (drop_bit ?s loc) = unat loc div 2 ^ ?s"
    unfolding unat_drop_bit_eq by (simp add: drop_bit_eq_div)
  ultimately show "unat (ucast (drop_bit ?s loc) :: 8 word) = unat loc div PX4_STORAGE_LINE_SIZE g"
    by (simp add: unsigned_ucast_eq take_bit_nat_eq_self PX4_STORAGE_LINE_SIZE_def)
qed

lemma mark_dirty_loop_fits:
  assumes "config_ok g" and "unat e \<le> PX4_STORAGE_SIZE"
  shows "(\<forall>k. bit m k \<longrightarrow> k < PX4_STORAGE_NUM_LINES g) \<Longrightarrow>
     mark_dirty_loop g e loc m = Some m' \<Longrightarrow>
     (\<forall>k. bit m' k \<longrightarrow> k < PX4_STORAGE_NUM_LINES g) \<and> (\<forall>k. bit m k \<longrightarrow> bit m' k) \<and>
     (loc < e \<longrightarrow> bit m' (unat loc div PX4_STORAGE_LINE_SIZE g))"
proof (induction "unat e - unat loc" arbitrary: loc m rule: less_induct)
  case less
  show ?case
  proof (cases "loc < e")
    case False
    with less.prems show ?thesis
      by (subst (asm) mark_dirty_loop.simps) simp
  next
    case True
    let ?L = "of_nat (PX4_STORAGE_LINE_SIZE g) :: 16 word"
    let ?line = "unat loc div PX4_STORAGE_LINE_SIZE g"
    let ?m1 = "m OR push_bit ?line 1"
    note L = line_size_bounds [OF assms(1)]
    from True have lt: "unat loc < unat e" by (simp add: word_less_nat_alt)
    with assms(2) have inr: "unat loc < PX4_STORAGE_SIZE" by simp
    note ln = line_of_loc [OF assms(1) inr]
    from ln(2) num_lines_le_32 [OF assms(1)] have l32: "?line < 32" by simp
    from less.prems(2) True ln(1) have rec: "mark_dirty_loop g e (loc + ?L) ?m1 = Some m'"
      by (subst (asm) mark_dirty_loop.simps) (simp add: Let_def)
    from assms(2) L lt have "unat loc + unat ?L < 2 ^ 16"
      by (simp add: PX4_STORAGE_SIZE_def)
    then have "unat (loc + ?L) = unat loc + unat ?L"
      using unat_add_lem [of loc ?L] by simp
    with L lt have dec: "unat e - unat (loc + ?L) < unat e - unat loc" by simp
    have b1: "\<forall>k. bit ?m1 k \<longleftrightarrow> bit m k \<or> k = ?line"
      using l32 by (auto simp: bit_simps)
    with less.prems(1) ln(2) have f1: "\<forall>k. bit ?m1 k \<longrightarrow> k < PX4_STORAGE_NUM_LINES g"
      by auto
    from less.hyps [OF dec f1 rec] b1 show ?thesis by auto
  qed
qed

lemma mark_dirty_fits:
  assumes "config_ok g" and "unat loc + unat len \<le> PX4_STORAGE_SIZE"
    and "\<forall>k. bit (dirty_mask st) k \<longrightarrow> k < PX4_STORAGE_NUM_LINES g"
    and "mark_dirty g st loc len = Some st'"
  shows "\<forall>k. bit (dirty_mask st') k \<longrightarrow> k < PX4_STORAGE_NUM_LINES g"
proof -
  from assms(2) have "unat loc + unat len < 2 ^ 16" by (simp add: PX4_STORAGE_SIZE_def)
  then have "unat (loc + len) = unat loc + unat len"
    using unat_add_lem [of loc len] by simp
  with assms(2) have e: "unat (loc + len) \<le> PX4_STORAGE_SIZE" by simp
  from assms(4) obtain m' where m': "mark_dirty_loop g (loc + len) loc (dirty_mask st) = Some m'"
    "dirty_mask st' = m'"
    by (auto simp: mark_dirty_def split: option.splits)
  from mark_dirty_loop_fits [OF assms(1) e assms(3) m'(1)] m'(2) show ?thesis by simp
qed

subsection \<open>Opening\<close>

lemma signature_bytes: "le_bytes 4 MTD_SIGNATURE = [0x14, 0x20, 0x01, 0x14]"
  by code_simp

lemma signature_of_bytes: "(le_word [0x14, 0x20, 0x01, 0x14] :: 32 word) = MTD_SIGNATURE"
  by code_simp

lemma le_word_signature: "le_word (le_bytes 4 MTD_SIGNATURE) = MTD_SIGNATURE"
  by (simp only: signature_bytes signature_of_bytes)

lemma le_word_zeros: "le_word (replicate k 0) = 0"
  by (induction k) simp_all

lemma storage_open_initialised: "initialised st \<Longrightarrow> storage_open io st = Inr st"
  by (simp add: storage_open_def)

lemma mtd_write_signature_frame:
  "mtd_write_signature io st = Inr st' \<Longrightarrow>
   trace st' = trace st \<and> initialised st' = initialised st"
  by (auto simp: mtd_write_signature_def split: option.splits if_splits)

lemma upgrade_to_mtd_frame:
  "upgrade_to_mtd io st = Inr st' \<Longrightarrow>
   opens st' = opens st \<and> initialised st' = initialised st"
  by (auto simp: upgrade_to_mtd_def opens_def emit_def Let_def split: option.splits if_splits)

lemma storage_open_fresh:
  assumes "\<not> initialised st" and "storage_open io st = Inr st'"
  shows "initialised st' \<and> opens st' = Suc (opens st) \<and> dirty_mask st' = 0 \<and>
    length (buffer st') = PX4_STORAGE_SIZE"
  using assms
  by (auto simp: storage_open_def opens_def emit_def Let_def
      split: option.splits if_splits sum.splits
      dest!: mtd_write_signature_frame upgrade_to_mtd_frame)

lemma mtd_signature_panics: "mtd_signature io st = Inl e \<Longrightarrow> \<exists>msg. e = Panic msg"
  by (auto simp: mtd_signature_def Let_def split: option.splits if_splits)

lemma mtd_write_signature_panics: "mtd_write_signature io st = Inl e \<Longrightarrow> \<exists>msg. e = Panic msg"
  by (auto simp: mtd_write_signature_def split: option.splits if_splits)

lemma upgrade_to_mtd_panics: "upgrade_to_mtd io st = Inl e \<Longrightarrow> \<exists>msg. e = Panic msg"
  by (auto simp: upgrade_to_mtd_def Let_def split: option.splits if_splits)

lemma storage_open_panics: "storage_open io st = Inl e \<Longrightarrow> \<exists>msg. e = Panic msg"
  by (auto simp: storage_open_def Let_def split: option.splits if_splits sum.splits
      dest: mtd_signature_panics mtd_write_signature_panics upgrade_to_mtd_panics)

lemma signature_after_write:
  assumes "8192 \<le> length m"
  shows "take 4 (drop MTD_SIGNATURE_OFFSET
      (take MTD_SIGNATURE_OFFSET m @ le_bytes 4 MTD_SIGNATURE @ drop 8192 m)) =
    le_bytes 4 MTD_SIGNATURE"
  using assms by (simp add: MTD_SIGNATURE_OFFSET_def length_le_bytes)

lemma upgrade_short_read:
  assumes "old_file st = Some f" and "mtd st = Some m"
    and "\<not> io Upg_open_old" and "\<not> io Upg_open_mtd"
    and "io Upg_read_old \<or> length f < PX4_STORAGE_SIZE"
  shows "\<exists>b. upgrade_to_mtd io st = Inr (emit [Ev_failed_to_read_old] (st\<lparr>buffer := b\<rparr>))"
proof (cases "io Upg_read_old")
  case True
  with assms have "upgrade_to_mtd io st = Inr (emit [Ev_failed_to_read_old] (st\<lparr>buffer := buffer st\<rparr>))"
    by (simp add: upgrade_to_mtd_def)
  then show ?thesis by blast
next
  case False
  with assms have "upgrade_to_mtd io st =
      Inr (emit [Ev_failed_to_read_old] (st\<lparr>buffer := f @ drop (length f) (buffer st)\<rparr>))"
    by (simp add: upgrade_to_mtd_def Let_def)
  then show ?thesis by blast
qed


subsection \<open>Sample inputs\<close>

lemma num_lines_128: "PX4_STORAGE_NUM_LINES lines_128 = 32"
  by (simp add: PX4_STORAGE_NUM_LINES_def PX4_STORAGE_LINE_SIZE_def PX4_STORAGE_SIZE_def
      lines_128_def)

lemma config_ok_128: "config_ok lines_128"
  by (simp add: config_ok_def PX4_STORAGE_LINE_SIZE_def lines_128_def)

lemma line_size_128: "PX4_STORAGE_LINE_SIZE lines_128 = 128"
  by (simp add: PX4_STORAGE_LINE_SIZE_def lines_128_def)

lemma loaded_simps:
  "initialised (loaded dm)" "dirty_mask (loaded dm) = dm" "fd (loaded dm) = 3"
  "trace (loaded dm) = []" "perf_errors (loaded dm) = 0"
  "mtd (loaded dm) = Some (signed_mtd 0)" "buffer (loaded dm) = replicate PX4_STORAGE_SIZE 0"
  by (simp_all add: loaded_def PX4Storage_def)

lemma mask_fits_128: "\<forall>k. bit (dm :: 32 word) k \<longrightarrow> k < PX4_STORAGE_NUM_LINES lines_128"
  by (auto simp: num_lines_128 dest: bit_imp_le_length)

lemma first_dirty_128: "dm \<noteq> 0 \<Longrightarrow> first_dirty lines_128 (dirty_mask (loaded dm)) 0 < PX4_STORAGE_NUM_LINES lines_128"
  by (rule first_dirty_selects) (simp_all add: loaded_simps mask_fits_128)


lemmas tick_eval = length_le_bytes push_bit_eq_mult
  timer_tick_def attempt_open_def loaded_def PX4Storage_def first_dirty.simps count_lines.simps
  write_lines_def Let_def lines_128_def PX4_STORAGE_NUM_LINES_def PX4_STORAGE_LINE_SIZE_def
  PX4_STORAGE_SIZE_def emit_def perf_end_def perf_count_def dev_write_def buffer_at_def
  signed_mtd_def MTD_SIGNATURE_OFFSET_def no_faults_def only_fails_def

text \<open>Lines 1 and 2 dirty: one invocation writes both and syncs.\<close>

lemma tick_all_clean:
  "trace (timer_tick lines_128 no_faults (loaded 6)) =
     [Ev_lseek 128 True, Ev_write 128 256 True, Ev_fsync True] \<and>
   dirty_mask (timer_tick lines_128 no_faults (loaded 6)) = 0"
  by (simp add: tick_eval)

text \<open>Lines 1 to 6 dirty: one invocation writes four of them and does not sync.\<close>

lemma tick_still_dirty:
  "trace (timer_tick lines_128 no_faults (loaded 126)) =
     [Ev_lseek 128 True, Ev_write 128 512 True] \<and>
   dirty_mask (timer_tick lines_128 no_faults (loaded 126)) = 96"
  by (simp add: tick_eval)

lemma blank_signature: "le_word (take 4 (drop MTD_SIGNATURE_OFFSET blank_mtd)) = (0 :: 32 word)"
  by (simp add: blank_mtd_def MTD_SIGNATURE_OFFSET_def le_word_zeros)

lemma signature_nonzero: "(0 :: 32 word) \<noteq> MTD_SIGNATURE"
  by (simp add: MTD_SIGNATURE_def)

lemma signed_signature: "le_word (take 4 (drop MTD_SIGNATURE_OFFSET (signed_mtd b))) = MTD_SIGNATURE"
  by (simp add: signed_mtd_def length_le_bytes le_word_signature)

lemmas open_eval = storage_open_def mtd_signature_def mtd_write_signature_def upgrade_to_mtd_def
  PX4Storage_def no_faults_def emit_def Let_def dev_write_def length_le_bytes
  blank_signature signed_signature signature_nonzero le_word_signature

subsection \<open>Accessors\<close>

lemma length_signed_mtd: "length (signed_mtd b) = 8192"
  by (simp add: signed_mtd_def MTD_SIGNATURE_OFFSET_def length_le_bytes)

lemma mtd_signature_signed:
  "mtd st = Some (signed_mtd b) \<Longrightarrow> mtd_signature no_faults st = Inr MTD_SIGNATURE"
  by (simp add: mtd_signature_def no_faults_def Let_def signed_mtd_def length_le_bytes
      le_word_signature)

lemma storage_open_signed:
  "\<exists>st'. storage_open no_faults (PX4Storage (Some (signed_mtd b)) None) = Inr st' \<and>
     buffer st' = replicate PX4_STORAGE_SIZE b"
proof -
  have len: "PX4_STORAGE_SIZE \<le> length (signed_mtd b)"
    by (simp add: length_signed_mtd PX4_STORAGE_SIZE_def)
  have tk: "take PX4_STORAGE_SIZE (signed_mtd b) = replicate PX4_STORAGE_SIZE b"
    by (simp add: signed_mtd_def PX4_STORAGE_SIZE_def MTD_SIGNATURE_OFFSET_def)
  show ?thesis
    using len tk
    by (simp add: storage_open_def mtd_signature_signed PX4Storage_def no_faults_def emit_def
        Let_def)
qed

lemma writes_out_of_range:
  "(PX4_STORAGE_SIZE < unat loc + 1 \<longrightarrow> write_byte g io st loc b = Inr st) \<and>
   (PX4_STORAGE_SIZE < unat loc + 2 \<longrightarrow> write_word g io st loc w = Inr st) \<and>
   (PX4_STORAGE_SIZE < unat loc + 4 \<longrightarrow> write_dword g io st loc d = Inr st) \<and>
   (PX4_STORAGE_SIZE < unat loc + unat n \<and> unat n \<le> PX4_STORAGE_SIZE + 1 \<longrightarrow>
      write_block g io st loc src n = Inr st)"
proof (intro conjI impI)
  assume "PX4_STORAGE_SIZE < unat loc + 1"
  then show "write_byte g io st loc b = Inr st"
    by (simp add: write_byte_def guard_byte)
next
  assume "PX4_STORAGE_SIZE < unat loc + 2"
  then show "write_word g io st loc w = Inr st"
    by (simp only: write_word_def guard_word if_True)
next
  assume "PX4_STORAGE_SIZE < unat loc + 4"
  then show "write_dword g io st loc d = Inr st"
    by (simp only: write_dword_def guard_dword if_True)
next
  assume "PX4_STORAGE_SIZE < unat loc + unat n \<and> unat n \<le> PX4_STORAGE_SIZE + 1"
  then show "write_block g io st loc src n = Inr st"
    by (simp add: write_block_def guard_block)
qed

lemma mark_dirty_loop_127: "mark_dirty_loop lines_128 129 127 0 = Some 1"
  by code_simp

lemma mark_dirty_loop_511: "mark_dirty_loop lines_512 513 511 0 = Some 1"
  by code_simp

lemma le_bytes_ffff: "le_bytes 2 (0xFFFF :: 16 word) = [0xFF, 0xFF]"
  by code_simp

lemma write_word_127:
  "\<exists>st'. write_word lines_128 no_faults (loaded 0) 127 0xFFFF = Inr st' \<and> dirty_mask st' = 1"
proof -
  have g: "\<not> (ucast (127 :: 16 word) :: 32 word) \<ge> sizeof_buffer - (2 - 1)"
    by (simp add: sizeof_buffer_def PX4_STORAGE_SIZE_def)
  have two: "replicate 2 (0 :: byte) = [0, 0]"
    by (simp add: numeral_2_eq_2)
  have d: "le_bytes 2 (0xFFFF :: 16 word) \<noteq> buffer_at (loaded 0) (unat (127 :: 16 word)) 2"
    by (simp add: le_bytes_ffff buffer_at_def loaded_simps PX4_STORAGE_SIZE_def two)
  have m: "mark_dirty_loop lines_128 (127 + 2) 127 0 = Some 1"
    using mark_dirty_loop_127 by simp
  have "write_word lines_128 no_faults (loaded 0) 127 0xFFFF =
      store lines_128 no_faults (loaded 0) 127 (le_bytes 2 (0xFFFF :: 16 word)) 2"
    using g d by (simp only: write_word_def if_False if_True simp_thms)
  also have "\<dots> = Inr ((buffer_put (loaded 0) 127 (le_bytes 2 (0xFFFF :: 16 word)))\<lparr>dirty_mask := 1\<rparr>)"
    using m
    by (simp add: store_def storage_open_initialised loaded_simps mark_dirty_def buffer_put_def)
  finally show ?thesis by simp
qed

lemma unat_len16:
  fixes n :: "32 word"
  assumes "unat n \<le> PX4_STORAGE_SIZE"
  shows "unat (ucast n :: 16 word) = unat n"
proof -
  from assms have "unat n < 2 ^ 16" by (simp add: PX4_STORAGE_SIZE_def)
  then show ?thesis by (simp add: unsigned_ucast_eq take_bit_nat_eq_self)
qed

lemma open_fresh:
  assumes "\<not> initialised st"
  shows "(\<exists>msg. storage_open io st = Inl (Panic msg)) \<or>
     (\<exists>st'. storage_open io st = Inr st' \<and> initialised st' \<and> opens st' = Suc (opens st))"
proof (cases "storage_open io st")
  case (Inl e)
  with storage_open_panics [of io st e] show ?thesis by auto
next
  case (Inr st')
  with storage_open_fresh [OF assms, of io st'] show ?thesis by auto
qed

lemma store_fresh:
  assumes "config_ok g" and "unat loc + unat len \<le> PX4_STORAGE_SIZE" and "\<not> initialised st"
  shows "(\<exists>msg. store g io st loc bs len = Inl (Panic msg)) \<or>
     (\<exists>st'. store g io st loc bs len = Inr st' \<and> initialised st' \<and> opens st' = Suc (opens st))"
proof -
  from open_fresh [OF assms(3), of io]
  consider msg where "storage_open io st = Inl (Panic msg)"
    | st1 where "storage_open io st = Inr st1" "initialised st1" "opens st1 = Suc (opens st)"
    by blast
  then show ?thesis
  proof cases
    case 1
    then show ?thesis by (simp add: store_def)
  next
    case 2
    from mark_dirty_returns [OF assms(1,2), of "buffer_put st1 (unat loc) bs"]
    obtain dm where "mark_dirty g (buffer_put st1 (unat loc) bs) loc len =
        Some ((buffer_put st1 (unat loc) bs)\<lparr>dirty_mask := dm\<rparr>)" by blast
    with 2 show ?thesis
      by (simp add: store_def buffer_put_def opens_def)
  qed
qed

lemma store_initialised:
  assumes "config_ok g" and "unat loc + unat len \<le> PX4_STORAGE_SIZE" and "initialised st"
  shows "\<exists>dm. store g io st loc bs len = Inr ((buffer_put st (unat loc) bs)\<lparr>dirty_mask := dm\<rparr>)"
proof -
  from mark_dirty_returns [OF assms(1,2), of "buffer_put st (unat loc) bs"]
  obtain dm where "mark_dirty g (buffer_put st (unat loc) bs) loc len =
      Some ((buffer_put st (unat loc) bs)\<lparr>dirty_mask := dm\<rparr>)" by blast
  with assms(3) have "store g io st loc bs len =
      Inr ((buffer_put st (unat loc) bs)\<lparr>dirty_mask := dm\<rparr>)"
    by (simp add: store_def storage_open_initialised)
  then show ?thesis by blast
qed


lemma store_initialised_frame:
  assumes "config_ok g" and "unat loc + unat len \<le> PX4_STORAGE_SIZE" and "initialised st"
  shows "\<exists>st'. store g io st loc bs len = Inr st' \<and> initialised st' \<and> opens st' = opens st"
  using store_initialised [OF assms, of io bs] assms(3)
  by (auto simp: buffer_put_def opens_def)

lemma guard_word_n:
  "sizeof_buffer - 1 \<le> (ucast loc :: 32 word) \<longleftrightarrow> PX4_STORAGE_SIZE < unat loc + 2"
  for loc :: "16 word"
  using guard_word [of loc] by simp

lemma guard_dword_n:
  "sizeof_buffer - 3 \<le> (ucast loc :: 32 word) \<longleftrightarrow> PX4_STORAGE_SIZE < unat loc + 4"
  for loc :: "16 word"
  using guard_dword [of loc] by simp

text \<open>No accessor call that returns on an initialised store has run Open.\<close>

lemma run_initialised_frame:
  assumes "initialised st" and "run g io st c = Inr st'"
  shows "initialised st' \<and> opens st' = opens st"
proof (cases c)
  case (Read_byte loc)
  with assms show ?thesis
    by (auto simp: read_byte_def state_of_def storage_open_initialised split: if_splits)
next
  case (Read_word loc)
  with assms show ?thesis
    by (auto simp: read_word_def state_of_def storage_open_initialised split: if_splits)
next
  case (Read_dword loc)
  with assms show ?thesis
    by (auto simp: read_dword_def state_of_def storage_open_initialised split: if_splits)
next
  case (Read_block dst loc n)
  with assms show ?thesis
    by (auto simp: read_block_def state_of_def storage_open_initialised split: if_splits)
next
  case (Write_byte loc v)
  with assms show ?thesis
    by (auto simp: write_byte_def store_def storage_open_initialised mark_dirty_def
        buffer_put_def opens_def split: if_splits option.splits)
next
  case (Write_word loc v)
  with assms show ?thesis
    by (auto simp: write_word_def store_def storage_open_initialised mark_dirty_def
        buffer_put_def opens_def split: if_splits option.splits)
next
  case (Write_dword loc v)
  with assms show ?thesis
    by (auto simp: write_dword_def store_def storage_open_initialised mark_dirty_def
        buffer_put_def opens_def split: if_splits option.splits)
next
  case (Write_block loc src n)
  with assms show ?thesis
    by (auto simp: write_block_def store_def storage_open_initialised mark_dirty_def
        buffer_put_def opens_def split: if_splits option.splits)
qed

text \<open>
  On a store that has been opened, a block written in range is the block read back.
\<close>

lemma write_then_read_initialised:
  assumes "config_ok g" and "initialised st" and "length (buffer st) = PX4_STORAGE_SIZE"
    and "unat loc + unat n \<le> PX4_STORAGE_SIZE"
    and "unat n \<le> length src" and "unat n \<le> length dst"
  shows "\<exists>st1. write_block g io st loc src n = Inr st1 \<and>
     read_block io st1 dst loc n = Inr (st1, take (unat n) src @ drop (unat n) dst)"
proof -
  let ?bs = "take (unat n) src"
  from assms(4) have n: "unat n \<le> PX4_STORAGE_SIZE + 1" by simp
  from assms(4) have n16: "unat loc + unat (ucast n :: 16 word) \<le> PX4_STORAGE_SIZE"
    by (simp add: unat_len16)
  have g: "\<not> (ucast loc :: 32 word) \<ge> sizeof_buffer - (n - 1)"
    using assms(4) by (simp add: guard_block [OF n])
  show ?thesis
  proof (cases "?bs = buffer_at st (unat loc) (unat n)")
    case True
    with g assms(2,4,5,6) show ?thesis
      by (simp add: write_block_def read_block_def storage_open_initialised)
  next
    case False
    from store_initialised [OF assms(1) n16 assms(2), of io ?bs]
    obtain dm where s: "store g io st loc ?bs (ucast n) =
        Inr ((buffer_put st (unat loc) ?bs)\<lparr>dirty_mask := dm\<rparr>)" by blast
    let ?st1 = "(buffer_put st (unat loc) ?bs)\<lparr>dirty_mask := dm\<rparr>"
    have w: "write_block g io st loc src n = Inr ?st1"
      using g False assms(4,5) s by (simp add: write_block_def)
    have i1: "initialised ?st1"
      using assms(2) by (simp add: buffer_put_def)
    have "buffer_at ?st1 (unat loc) (unat n) = ?bs"
      using assms(3,4,5) by (simp add: buffer_at_def buffer_put_def)
    with g i1 assms(4,6) have "read_block io ?st1 dst loc n = Inr (?st1, ?bs @ drop (unat n) dst)"
      by (simp add: read_block_def storage_open_initialised)
    with w show ?thesis by blast
  qed
qed

section \<open>The claims\<close>

text \<open>
  C1, as the code has it. During Open on a device of at least 8192 bytes whose signature
  is wrong, with a legacy file whose read fails or gives fewer bytes than the region
  holds, and no other call failing: the migration is abandoned with the diagnostic
  only (the device below the signature is untouched and the region is loaded from it),
  and the signature is written all the same, so that the device reads as signed from
  then on and a later boot does not try the migration again.
\<close>

theorem open_abandoned_migration_signs_device:
  assumes "\<not> initialised st" and "mtd st = Some m" and "8192 \<le> length m"
    and "old_file st = Some f"
    and "le_word (take 4 (drop MTD_SIGNATURE_OFFSET m)) \<noteq> MTD_SIGNATURE"
    and "io Upg_read_old \<or> length f < PX4_STORAGE_SIZE"
    and "\<forall>s. io s \<longrightarrow> s = Upg_read_old"
  shows "\<exists>st'. storage_open io st = Inr st' \<and>
     mtd st' = Some (take MTD_SIGNATURE_OFFSET m @ le_bytes 4 MTD_SIGNATURE @ drop 8192 m) \<and>
     mtd_signature io st' = Inr MTD_SIGNATURE \<and>
     trace st' = trace st @ [Ev_stat_mtd, Ev_stat_old, Ev_failed_to_read_old] \<and>
     buffer st' = take PX4_STORAGE_SIZE m \<and> initialised st' \<and> dirty_mask st' = 0"
proof -
  let ?m' = "take MTD_SIGNATURE_OFFSET m @ le_bytes 4 MTD_SIGNATURE @ drop 8192 m"
  have nf: "\<not> io Sig_open" "\<not> io Sig_lseek" "\<not> io Sig_read" "\<not> io Wsig_open"
    "\<not> io Wsig_lseek" "\<not> io Wsig_write" "\<not> io Upg_open_old" "\<not> io Upg_open_mtd"
    "\<not> io Open_open" "\<not> io Open_read"
    using assms(7) by auto
  let ?st2 = "emit [Ev_stat_old] (emit [Ev_stat_mtd] (st\<lparr>have_mtd := (mtd st \<noteq> None)\<rparr>))"
  have sig: "mtd_signature io (emit [Ev_stat_mtd] (st\<lparr>have_mtd := (mtd st \<noteq> None)\<rparr>)) =
      Inr (le_word (take 4 (drop MTD_SIGNATURE_OFFSET m)))"
    using assms(2,3) nf by (simp add: mtd_signature_def emit_def Let_def MTD_SIGNATURE_OFFSET_def)
  from upgrade_short_read [of ?st2 f m io] assms(2,4,6) nf
  obtain b where up: "upgrade_to_mtd io ?st2 = Inr (emit [Ev_failed_to_read_old] (?st2\<lparr>buffer := b\<rparr>))"
    by (auto simp: emit_def)
  let ?st3 = "emit [Ev_failed_to_read_old] (?st2\<lparr>buffer := b\<rparr>)"
  have ws: "mtd_write_signature io ?st3 = Inr (?st3\<lparr>mtd := Some ?m'\<rparr>)"
    using assms(2,3) nf
    by (simp add: mtd_write_signature_def emit_def dev_write_def length_le_bytes
        MTD_SIGNATURE_OFFSET_def)
  let ?st' = "?st3\<lparr>mtd := Some ?m', dirty_mask := 0, buffer := take PX4_STORAGE_SIZE ?m',
      initialised := True\<rparr>"
  have len: "PX4_STORAGE_SIZE \<le> length ?m'"
    using assms(3) by (simp add: PX4_STORAGE_SIZE_def MTD_SIGNATURE_OFFSET_def length_le_bytes)
  have res: "storage_open io st = Inr ?st'"
    using assms(1,2,4,5) nf sig up ws len
    by (simp add: storage_open_def Let_def emit_def)
  have tk: "take PX4_STORAGE_SIZE ?m' = take PX4_STORAGE_SIZE m"
    using assms(3) by (simp add: PX4_STORAGE_SIZE_def MTD_SIGNATURE_OFFSET_def)
  have sg: "mtd_signature io ?st' = Inr MTD_SIGNATURE"
    using nf signature_after_write [OF assms(3)]
    by (simp add: mtd_signature_def emit_def Let_def length_le_bytes le_word_signature)
  show ?thesis
    using res sg tk by (intro exI [of _ ?st']) (simp add: emit_def)
qed

theorem open_abandoned_migration_signs_device_witness:
  "\<exists>st'. storage_open no_faults (PX4Storage (Some blank_mtd) (Some [1, 2, 3])) = Inr st' \<and>
     mtd st' = Some (take MTD_SIGNATURE_OFFSET blank_mtd @ le_bytes 4 MTD_SIGNATURE @
       drop 8192 blank_mtd) \<and>
     mtd_signature no_faults st' = Inr MTD_SIGNATURE \<and>
     trace st' = [Ev_stat_mtd, Ev_stat_old, Ev_failed_to_read_old] \<and>
     buffer st' = take PX4_STORAGE_SIZE blank_mtd \<and> initialised st' \<and> dirty_mask st' = 0"
proof -
  let ?st = "PX4Storage (Some blank_mtd) (Some [1, 2, 3])"
  have h1: "\<not> initialised ?st" by (simp add: PX4Storage_def)
  have h2: "mtd ?st = Some blank_mtd" by (simp add: PX4Storage_def)
  have h3: "8192 \<le> length blank_mtd" by (simp add: blank_mtd_def)
  have h4: "old_file ?st = Some [1, 2, 3]" by (simp add: PX4Storage_def)
  have h5: "le_word (take 4 (drop MTD_SIGNATURE_OFFSET blank_mtd)) \<noteq> MTD_SIGNATURE"
    by (simp add: blank_signature signature_nonzero)
  have h6: "no_faults Upg_read_old \<or> length [1, 2, 3 :: byte] < PX4_STORAGE_SIZE"
    by (simp add: PX4_STORAGE_SIZE_def)
  have h7: "\<forall>s. no_faults s \<longrightarrow> s = Upg_read_old" by (simp add: no_faults_def)
  from open_abandoned_migration_signs_device [where io = no_faults, OF h1 h2 h3 h4 h5 h6 h7]
  show ?thesis by (simp add: PX4Storage_def)
qed

text \<open>
  C1 as stated fails: on a blank device with a legacy file of three bytes, Open reports
  the failed read and leaves the device with the signature written.
\<close>

theorem open_short_legacy_counterexample:
  "mtd_signature no_faults (PX4Storage (Some blank_mtd) (Some [1, 2, 3])) = Inr 0 \<and>
   (0 :: 32 word) \<noteq> MTD_SIGNATURE \<and>
   (\<exists>st'. storage_open no_faults (PX4Storage (Some blank_mtd) (Some [1, 2, 3])) = Inr st' \<and>
      trace st' = [Ev_stat_mtd, Ev_stat_old, Ev_failed_to_read_old] \<and>
      mtd_signature no_faults st' = Inr MTD_SIGNATURE)"
proof -
  have a: "mtd_signature no_faults (PX4Storage (Some blank_mtd) (Some [1, 2, 3])) = Inr 0"
    by (simp add: mtd_signature_def PX4Storage_def no_faults_def Let_def blank_mtd_def
        le_word_zeros MTD_SIGNATURE_OFFSET_def)
  have b: "\<exists>st'. storage_open no_faults (PX4Storage (Some blank_mtd) (Some [1, 2, 3])) = Inr st' \<and>
      trace st' = [Ev_stat_mtd, Ev_stat_old, Ev_failed_to_read_old] \<and>
      mtd_signature no_faults st' = Inr MTD_SIGNATURE"
    by (simp add: open_eval blank_mtd_def le_word_zeros MTD_SIGNATURE_OFFSET_def
        PX4_STORAGE_SIZE_def)
  from a b signature_nonzero show ?thesis by blast
qed

text \<open>
  C2 fails on the code. With lines of 128 bytes, \<open>_mark_dirty(127, 2)\<close> covers the
  bytes 127 and 128, the last of line 0 and the first of line 1. The loop marks line 0,
  steps \<open>loc\<close> to 255, which is not below \<open>end = 129\<close>, and stops: bit 1 stays
  clear. So \<open>write_word(127, 0xFFFF)\<close>, whose two bytes span lines 0 and 1, leaves the
  mask at 1. (With lines of 512 bytes the same happens at \<open>loc = 511\<close>.)
\<close>

theorem mark_dirty_misses_second_line:
  "mark_dirty lines_128 (loaded 0) 127 2 = Some (loaded 1) \<and>
   \<not> bit (dirty_mask (loaded 1)) 1 \<and>
   (\<exists>st'. write_word lines_128 no_faults (loaded 0) 127 0xFFFF = Inr st' \<and> dirty_mask st' = 1)"
  using mark_dirty_loop_127 write_word_127 by (simp add: mark_dirty_def loaded_def)

text \<open>
  C3, as the code has it. A read whose bytes do not all lie in the region returns
  without touching the state: \<open>read_byte\<close>, \<open>read_word\<close> and \<open>read_dword\<close> return
  zero; \<open>read_block\<close>, for a length of at most one more than the region holds, leaves
  the destination as it was.
\<close>

theorem reads_out_of_range:
  "(PX4_STORAGE_SIZE < unat loc + 1 \<longrightarrow> read_byte io st loc = Inr (st, 0)) \<and>
   (PX4_STORAGE_SIZE < unat loc + 2 \<longrightarrow> read_word io st loc = Inr (st, 0)) \<and>
   (PX4_STORAGE_SIZE < unat loc + 4 \<longrightarrow> read_dword io st loc = Inr (st, 0)) \<and>
   (PX4_STORAGE_SIZE < unat loc + unat n \<and> unat n \<le> PX4_STORAGE_SIZE + 1 \<longrightarrow>
      read_block io st dst loc n = Inr (st, dst))"
proof (intro conjI impI)
  assume "PX4_STORAGE_SIZE < unat loc + 1"
  then show "read_byte io st loc = Inr (st, 0)"
    by (simp add: read_byte_def guard_byte)
next
  assume "PX4_STORAGE_SIZE < unat loc + 2"
  then show "read_word io st loc = Inr (st, 0)"
    by (simp only: read_word_def guard_word if_True)
next
  assume "PX4_STORAGE_SIZE < unat loc + 4"
  then show "read_dword io st loc = Inr (st, 0)"
    by (simp only: read_dword_def guard_dword if_True)
next
  assume "PX4_STORAGE_SIZE < unat loc + unat n \<and> unat n \<le> PX4_STORAGE_SIZE + 1"
  then show "read_block io st dst loc n = Inr (st, dst)"
    by (simp add: read_block_def guard_block)
qed

theorem reads_out_of_range_witness:
  "read_byte no_faults (loaded 0) 4096 = Inr (loaded 0, 0) \<and>
   read_word no_faults (loaded 0) 4095 = Inr (loaded 0, 0) \<and>
   read_dword no_faults (loaded 0) 4093 = Inr (loaded 0, 0) \<and>
   read_block no_faults (loaded 0) [7, 7, 7] 4094 3 = Inr (loaded 0, [7, 7, 7])"
  using reads_out_of_range [where loc = 4096 and io = no_faults and st = "loaded 0"]
    reads_out_of_range [where loc = 4095 and io = no_faults and st = "loaded 0"]
    reads_out_of_range [where loc = 4093 and io = no_faults and st = "loaded 0"]
    reads_out_of_range [where loc = 4094 and n = 3 and io = no_faults and st = "loaded 0"
      and dst = "[7, 7, 7]"]
  by (simp add: PX4_STORAGE_SIZE_def)

text \<open>
  C3 as stated fails: \<open>read_block\<close> out of range does not fill the destination with
  zeros, it leaves the bytes \<open>[1, 2]\<close> in place.
\<close>

theorem read_block_out_of_range_counterexample:
  "read_block no_faults (loaded 0) [1, 2] 4095 2 = Inr (loaded 0, [1, 2]) \<and>
   [1, 2] \<noteq> [0, 0 :: byte]"
  by (simp add: read_block_def sizeof_buffer_def PX4_STORAGE_SIZE_def)

text \<open>
  C4, as the code has it. An accessor call in range on a store not yet initialised,
  which is a read or a write of bytes that differ from the buffer, runs Open once (the
  store is initialised afterwards and \<open>_storage_open\<close> has gone past its guard one
  more time), unless Open panics. An accessor call in range on an initialised store
  returns with Open not run again. A call out of range (for a block, with a length of
  at most one more than the region holds) returns the state as it was, Open not run.
  Whatever the call, when it returns on an initialised store Open has not run again.
\<close>

theorem open_runs_once:
  assumes "config_ok g"
  shows "(in_range c \<and> \<not> initialised st \<and> differs st c \<longrightarrow>
            (\<exists>msg. run g io st c = Inl (Panic msg)) \<or>
            (\<exists>st'. run g io st c = Inr st' \<and> initialised st' \<and> opens st' = Suc (opens st))) \<and>
         (in_range c \<and> initialised st \<longrightarrow>
            (\<exists>st'. run g io st c = Inr st' \<and> initialised st' \<and> opens st' = opens st)) \<and>
         (rejected c \<longrightarrow> run g io st c = Inr st) \<and>
         (initialised st \<and> run g io st c = Inr st1 \<longrightarrow>
            initialised st1 \<and> opens st1 = opens st)"
proof -
  have first: "(in_range c \<and> \<not> initialised st \<and> differs st c \<longrightarrow>
            (\<exists>msg. run g io st c = Inl (Panic msg)) \<or>
            (\<exists>st'. run g io st c = Inr st' \<and> initialised st' \<and> opens st' = Suc (opens st))) \<and>
         (in_range c \<and> initialised st \<longrightarrow>
            (\<exists>st'. run g io st c = Inr st' \<and> initialised st' \<and> opens st' = opens st)) \<and>
         (rejected c \<longrightarrow> run g io st c = Inr st)"
  proof (cases c)
    case (Read_byte loc)
    show ?thesis
      using open_fresh [of st io]
      by (auto simp: Read_byte read_byte_def guard_byte state_of_def storage_open_initialised)
  next
    case (Read_word loc)
    show ?thesis
      using open_fresh [of st io]
      by (auto simp: Read_word read_word_def guard_word_n state_of_def storage_open_initialised)
  next
    case (Read_dword loc)
    show ?thesis
      using open_fresh [of st io]
      by (auto simp: Read_dword read_dword_def guard_dword_n state_of_def storage_open_initialised)
  next
    case (Read_block dst loc n)
    show ?thesis
      using open_fresh [of st io]
      by (auto simp: Read_block read_block_def guard_block state_of_def storage_open_initialised)
  next
    case (Write_byte loc v)
    show ?thesis
      using store_fresh [OF assms, of loc 1 st io "[v]"] store_initialised_frame [OF assms, of loc 1 st io "[v]"]
        writes_out_of_range [of loc g io st v]
      by (auto simp: Write_byte write_byte_def guard_byte)
  next
    case (Write_word loc v)
    show ?thesis
      using store_fresh [OF assms, of loc 2 st io "le_bytes 2 v"]
        store_initialised_frame [OF assms, of loc 2 st io "le_bytes 2 v"]
        writes_out_of_range [of loc g io st _ v]
      by (auto simp: Write_word write_word_def guard_word_n)
  next
    case (Write_dword loc v)
    show ?thesis
      using store_fresh [OF assms, of loc 4 st io "le_bytes 4 v"]
        store_initialised_frame [OF assms, of loc 4 st io "le_bytes 4 v"]
        writes_out_of_range [of loc g io st _ _ v]
      by (auto simp: Write_dword write_dword_def guard_dword_n)
  next
    case (Write_block loc src n)
    show ?thesis
      using store_fresh [OF assms, of loc "ucast n" st io "take (unat n) src"]
        store_initialised_frame [OF assms, of loc "ucast n" st io "take (unat n) src"]
        writes_out_of_range [of loc g io st _ _ _ n src]
      by (auto simp: Write_block write_block_def guard_block unat_len16)
  qed
  have later: "initialised st \<and> run g io st c = Inr st1 \<longrightarrow>
      initialised st1 \<and> opens st1 = opens st"
    using run_initialised_frame [of st g io c st1] by simp
  from conjI [OF first later] show ?thesis by (simp only: conj_assoc)
qed

theorem open_runs_once_witness:
  "(\<exists>st'. run lines_128 no_faults (PX4Storage (Some (signed_mtd 5)) None) (Read_byte 0) = Inr st' \<and>
      initialised st' \<and> opens st' = Suc (opens (PX4Storage (Some (signed_mtd 5)) None))) \<and>
   (\<exists>st'. run lines_128 no_faults (loaded 0) (Write_byte 0 1) = Inr st' \<and>
      initialised st' \<and> opens st' = opens (loaded 0)) \<and>
   run lines_128 no_faults (PX4Storage (Some (signed_mtd 5)) None) (Read_byte 4096) =
     Inr (PX4Storage (Some (signed_mtd 5)) None)"
proof -
  let ?fresh = "PX4Storage (Some (signed_mtd 5)) None"
  have fresh: "\<not> initialised ?fresh" by (simp add: PX4Storage_def)
  have r0: "in_range (Read_byte 0)" "differs ?fresh (Read_byte 0)"
    by (simp_all add: PX4_STORAGE_SIZE_def)
  have w0: "in_range (Write_byte 0 1)" by (simp add: PX4_STORAGE_SIZE_def)
  have r1: "rejected (Read_byte 4096)" by (simp add: PX4_STORAGE_SIZE_def)
  obtain st1 where "storage_open no_faults ?fresh = Inr st1"
    using storage_open_signed [of 5] by blast
  then have np: "\<forall>msg. run lines_128 no_faults ?fresh (Read_byte 0) \<noteq> Inl (Panic msg)"
    by (simp add: read_byte_def state_of_def sizeof_buffer_def PX4_STORAGE_SIZE_def)
  from open_runs_once [OF config_ok_128, of "Read_byte 0" ?fresh no_faults] fresh r0 np
  have a: "\<exists>st'. run lines_128 no_faults ?fresh (Read_byte 0) = Inr st' \<and>
      initialised st' \<and> opens st' = Suc (opens ?fresh)"
    by blast
  from open_runs_once [OF config_ok_128, of "Write_byte 0 1" "loaded 0" no_faults] w0
  have b: "\<exists>st'. run lines_128 no_faults (loaded 0) (Write_byte 0 1) = Inr st' \<and>
      initialised st' \<and> opens st' = opens (loaded 0)"
    by (simp add: loaded_simps)
  from open_runs_once [OF config_ok_128, of "Read_byte 4096" ?fresh no_faults] r1
  have c: "run lines_128 no_faults ?fresh (Read_byte 4096) = Inr ?fresh"
    by blast
  from a b c show ?thesis by (intro conjI)
qed

text \<open>
  C4 as stated fails: the first accessor call, \<open>read_byte(4096)\<close>, returns with Open
  not run and the store still not initialised.
\<close>

theorem first_call_without_open_counterexample:
  "run lines_128 no_faults (PX4Storage (Some (signed_mtd 5)) None) (Read_byte 4096) =
     Inr (PX4Storage (Some (signed_mtd 5)) None) \<and>
   \<not> initialised (PX4Storage (Some (signed_mtd 5)) None) \<and>
   opens (PX4Storage (Some (signed_mtd 5)) None) = 0"
  by (simp add: read_byte_def state_of_def sizeof_buffer_def PX4_STORAGE_SIZE_def
      PX4Storage_def opens_def)

text \<open>
  C5 fails on the code. \<open>write_block(0, src, 4098)\<close> is out of range, but the guard
  \<open>loc >= sizeof(_buffer)-(n-1)\<close> wraps to \<open>0 >= 0xFFFFFFFF\<close> and lets it through:
  \<open>memcmp\<close> and \<open>memcpy\<close> then run over 4098 bytes of the 4096-byte buffer.
\<close>

theorem write_block_guard_wraps:
  "write_block lines_128 no_faults (loaded 0) 0 (replicate 4098 1) 4098 = Inl Fault"
  by (simp add: write_block_def sizeof_buffer_def PX4_STORAGE_SIZE_def)

text \<open>
  C6. A flush invocation that holds a descriptor (or opens one) on an initialised store
  with a non-empty dirty mask, each of whose bits stands for a line, selects the lowest
  set bit \<open>i\<close> and a run of \<open>n\<close> set bits from \<open>i\<close>. The run is within the cap
  (\<open>n\<close> lines are at most \<open>PX4_STORAGE_MAX_WRITE\<close> bytes) and stops only at the cap,
  at the last line or at a clear bit. When the seek fails the invocation writes nothing
  and the mask is as it was. When the seek succeeds the invocation issues exactly one
  device write, at the run's offset and of the run's length. If that write fails the
  mask is as it was. If it succeeds (the device and the buffer hold the whole region),
  the device holds the buffer's bytes of the run at the run's offset and is otherwise
  unchanged, the bits of the run are cleared, and every other bit of the mask is as it
  was: the dirty lines beyond the run remain set.
\<close>

theorem timer_tick_one_capped_run:
  assumes "config_ok g" and "initialised st" and "dirty_mask st \<noteq> 0"
    and "\<forall>k. bit (dirty_mask st) k \<longrightarrow> k < PX4_STORAGE_NUM_LINES g"
    and "fd st \<noteq> - 1 \<or> \<not> io Tick_open \<and> mtd st \<noteq> None"
  shows "\<exists>i n evs.
     bit (dirty_mask st) i \<and> (\<forall>k<i. \<not> bit (dirty_mask st) k) \<and>
     0 < n \<and> (\<forall>k. i \<le> k \<and> k < i + n \<longrightarrow> bit (dirty_mask st) k) \<and>
     n * PX4_STORAGE_LINE_SIZE g \<le> PX4_STORAGE_MAX_WRITE g \<and>
     (Suc n * PX4_STORAGE_LINE_SIZE g > PX4_STORAGE_MAX_WRITE g \<or>
      i + n = PX4_STORAGE_NUM_LINES g \<or> \<not> bit (dirty_mask st) (i + n)) \<and>
     trace (timer_tick g io st) = trace st @ evs \<and>
     (filter is_write evs = [] \<or>
      (\<exists>ok. filter is_write evs =
         [Ev_write (i * PX4_STORAGE_LINE_SIZE g) (n * PX4_STORAGE_LINE_SIZE g) ok])) \<and>
     (\<forall>k. bit (dirty_mask st) k \<and> \<not> (i \<le> k \<and> k < i + n) \<longrightarrow>
        bit (dirty_mask (timer_tick g io st)) k) \<and>
     (io Tick_lseek \<longrightarrow>
        filter is_write evs = [] \<and> dirty_mask (timer_tick g io st) = dirty_mask st) \<and>
     (\<not> io Tick_lseek \<and> io Tick_write \<longrightarrow>
        filter is_write evs =
          [Ev_write (i * PX4_STORAGE_LINE_SIZE g) (n * PX4_STORAGE_LINE_SIZE g) False] \<and>
        dirty_mask (timer_tick g io st) = dirty_mask st) \<and>
     (\<forall>m. \<not> io Tick_lseek \<and> \<not> io Tick_write \<and> mtd st = Some m \<and>
          PX4_STORAGE_SIZE \<le> length m \<and> length (buffer st) = PX4_STORAGE_SIZE \<longrightarrow>
        filter is_write evs =
          [Ev_write (i * PX4_STORAGE_LINE_SIZE g) (n * PX4_STORAGE_LINE_SIZE g) True] \<and>
        (\<forall>k. bit (dirty_mask (timer_tick g io st)) k \<longleftrightarrow>
           bit (dirty_mask st) k \<and> \<not> (i \<le> k \<and> k < i + n)) \<and>
        mtd (timer_tick g io st) =
          Some (take (i * PX4_STORAGE_LINE_SIZE g) m @
                buffer_at st (i * PX4_STORAGE_LINE_SIZE g) (n * PX4_STORAGE_LINE_SIZE g) @
                drop (i * PX4_STORAGE_LINE_SIZE g + n * PX4_STORAGE_LINE_SIZE g) m) \<and>
        buffer (timer_tick g io st) = buffer st)"
proof -
  let ?L = "PX4_STORAGE_LINE_SIZE g" and ?M = "PX4_STORAGE_MAX_WRITE g"
  let ?sh = "PX4_STORAGE_LINE_SHIFT g"
  have sel: "first_dirty g (dirty_mask st) 0 < PX4_STORAGE_NUM_LINES g"
    using assms(3,4) by (rule first_dirty_selects)
  obtain i n wm where run:
    "bit (dirty_mask st) i" "\<forall>k<i. \<not> bit (dirty_mask st) k"
    "0 < n" "n \<le> max 1 (drop_bit ?sh ?M)"
    "i + n \<le> PX4_STORAGE_NUM_LINES g"
    "\<forall>k. bit wm k \<longleftrightarrow> i \<le> k \<and> k < i + n"
    "\<forall>k. i \<le> k \<and> k < i + n \<longrightarrow> bit (dirty_mask st) k"
    "\<not> (i + n < PX4_STORAGE_NUM_LINES g \<and> n < drop_bit ?sh ?M \<and> bit (dirty_mask st) (i + n))"
    and tick: "timer_tick g io st =
       perf_end
         (if io Tick_lseek
          then emit [Ev_lseek (push_bit ?sh i) False] (attempt_open io st)
          else write_lines io (emit [Ev_lseek (push_bit ?sh i) True] (attempt_open io st))
                 (push_bit ?sh i) (push_bit ?sh n) wm)"
    using timer_tick_run [where st = st and io = io and g = g, OF assms(2,3,5) sel]
    by (elim exE conjE) (rule that, assumption+)
  have cap: "n * ?L \<le> ?M"
    using assms(1) run(3,4) by (rule lines_within_cap)
  have Lpos: "0 < ?L" by (simp add: PX4_STORAGE_LINE_SIZE_def)
  have capdiv: "drop_bit ?sh ?M = ?M div ?L"
    by (simp add: drop_bit_eq_div PX4_STORAGE_LINE_SIZE_def)
  have mx: "Suc n * ?L > ?M \<or> i + n = PX4_STORAGE_NUM_LINES g \<or> \<not> bit (dirty_mask st) (i + n)"
  proof (cases "n < ?M div ?L")
    case True
    with run(5,8) capdiv show ?thesis by auto
  next
    case False
    then have "?M div ?L < Suc n" by simp
    then have "?M < Suc n * ?L"
      using Lpos by (simp add: div_less_iff_less_mult)
    then show ?thesis by simp
  qed
  have off: "push_bit ?sh i = i * ?L" "push_bit ?sh n = n * ?L"
    by (simp_all add: push_bit_eq_mult PX4_STORAGE_LINE_SIZE_def)
  have "(i + n) * ?L \<le> PX4_STORAGE_NUM_LINES g * ?L"
    using run(5) by (rule mult_le_mono1)
  then have inside: "i * ?L + n * ?L \<le> PX4_STORAGE_SIZE"
    by (simp add: lines_times_size [OF assms(1)] add_mult_distrib)
  have sub: "\<forall>k. bit wm k \<longrightarrow> bit (dirty_mask st) k"
    using run(6,7) by simp
  have dmo: "dirty_mask (attempt_open io st) = dirty_mask st"
    by (simp add: attempt_open_def emit_def)
  have tro: "\<exists>evs. trace (attempt_open io st) = trace st @ evs \<and> filter is_write evs = []"
    by (simp add: attempt_open_def emit_def)
  then obtain ev0 where ev0: "trace (attempt_open io st) = trace st @ ev0" "filter is_write ev0 = []"
    by blast
  let ?P1 = "bit (dirty_mask st) i" and ?P2 = "\<forall>k<i. \<not> bit (dirty_mask st) k"
  let ?P4 = "\<forall>k. i \<le> k \<and> k < i + n \<longrightarrow> bit (dirty_mask st) k"
  let ?t = "timer_tick g io st"
  show ?thesis
  proof (cases "io Tick_lseek")
    case True
    let ?evs = "ev0 @ [Ev_lseek (push_bit ?sh i) False]"
    from True tick have t: "?t = perf_end (emit [Ev_lseek (push_bit ?sh i) False] (attempt_open io st))"
      by simp
    have A: "trace ?t = trace st @ ?evs"
      by (simp add: t perf_end_def emit_def ev0)
    have B: "filter is_write ?evs = []"
      by (simp add: ev0)
    have C: "dirty_mask ?t = dirty_mask st"
      by (simp add: t perf_end_def emit_def dmo)
    show ?thesis
    proof (rule exI [of _ i], rule exI [of _ n], rule exI [of _ ?evs], intro conjI)
      show ?P1 by (rule run(1))
      show ?P2 by (rule run(2))
      show "0 < n" by (rule run(3))
      show ?P4 by (rule run(7))
      show "n * ?L \<le> ?M" by (rule cap)
      show "Suc n * ?L > ?M \<or> i + n = PX4_STORAGE_NUM_LINES g \<or> \<not> bit (dirty_mask st) (i + n)"
        by (rule mx)
      show "trace ?t = trace st @ ?evs" by (rule A)
      show "filter is_write ?evs = [] \<or>
          (\<exists>ok. filter is_write ?evs = [Ev_write (i * ?L) (n * ?L) ok])"
        using B by (rule disjI1)
      show "\<forall>k. bit (dirty_mask st) k \<and> \<not> (i \<le> k \<and> k < i + n) \<longrightarrow> bit (dirty_mask ?t) k"
        by (simp add: C)
      show "io Tick_lseek \<longrightarrow> filter is_write ?evs = [] \<and> dirty_mask ?t = dirty_mask st"
        using B C by (intro impI conjI)
      show "\<not> io Tick_lseek \<and> io Tick_write \<longrightarrow>
          filter is_write ?evs = [Ev_write (i * ?L) (n * ?L) False] \<and> dirty_mask ?t = dirty_mask st"
        using True by blast
      show "\<forall>m. \<not> io Tick_lseek \<and> \<not> io Tick_write \<and> mtd st = Some m \<and>
            PX4_STORAGE_SIZE \<le> length m \<and> length (buffer st) = PX4_STORAGE_SIZE \<longrightarrow>
          filter is_write ?evs = [Ev_write (i * ?L) (n * ?L) True] \<and>
          (\<forall>k. bit (dirty_mask ?t) k \<longleftrightarrow> bit (dirty_mask st) k \<and> \<not> (i \<le> k \<and> k < i + n)) \<and>
          mtd ?t = Some (take (i * ?L) m @ buffer_at st (i * ?L) (n * ?L) @
                         drop (i * ?L + n * ?L) m) \<and>
          buffer ?t = buffer st"
        using True by blast
    qed
  next
    case False
    let ?st1 = "emit [Ev_lseek (push_bit ?sh i) True] (attempt_open io st)"
    let ?w = "write_lines io ?st1 (i * ?L) (n * ?L) wm"
    from False tick have t: "?t = perf_end ?w"
      by (simp add: off)
    have tw: "trace ?t = trace ?w" "dirty_mask ?t = dirty_mask ?w" "mtd ?t = mtd ?w"
      "buffer ?t = buffer ?w"
      by (simp_all add: t perf_end_def)
    from write_lines_trace [of io ?st1 "i * ?L" "n * ?L" wm]
    obtain ok evs where w:
      "trace ?w = trace ?st1 @ Ev_write (i * ?L) (n * ?L) ok # evs" "filter is_write evs = []"
      by blast
    have tr1: "trace ?st1 = trace st @ ev0 @ [Ev_lseek (push_bit ?sh i) True]"
      by (simp add: emit_def ev0)
    have m1: "dirty_mask ?st1 = dirty_mask st"
      by (simp add: emit_def dmo)
    have fr1: "mtd ?st1 = mtd st" "buffer ?st1 = buffer st"
      by (simp_all add: emit_def attempt_open_frame)
    have ba: "buffer_at ?st1 (i * ?L) (n * ?L) = buffer_at st (i * ?L) (n * ?L)"
      by (simp add: buffer_at_def fr1)
    let ?evs = "ev0 @ Ev_lseek (push_bit ?sh i) True # Ev_write (i * ?L) (n * ?L) ok # evs"
    have A: "trace ?t = trace st @ ?evs"
      by (simp add: tw w(1) tr1)
    have B: "filter is_write ?evs = [Ev_write (i * ?L) (n * ?L) ok]"
      by (simp add: ev0 w(2))
    have C: "\<forall>k. bit (dirty_mask st) k \<and> \<not> (i \<le> k \<and> k < i + n) \<longrightarrow> bit (dirty_mask ?t) k"
    proof (intro allI impI)
      fix k assume "bit (dirty_mask st) k \<and> \<not> (i \<le> k \<and> k < i + n)"
      with run(6) m1 have "bit (dirty_mask ?st1) k" "\<not> bit wm k" by simp_all
      then have "bit (dirty_mask ?w) k" by (rule write_lines_keeps)
      then show "bit (dirty_mask ?t) k" by (simp add: tw)
    qed
    have D: "\<not> ok \<and> dirty_mask ?t = dirty_mask st" if f: "io Tick_write"
    proof -
      from assms(3) m1 have nz1: "dirty_mask ?st1 \<noteq> 0" by simp
      from sub m1 have sub1: "\<forall>k. bit wm k \<longrightarrow> bit (dirty_mask ?st1) k" by simp
      from write_lines_failed_trace [where io = io, OF f nz1 sub1, of "i * ?L" "n * ?L"]
      have r: "dirty_mask ?w = dirty_mask ?st1"
        "trace ?w = trace ?st1 @ [Ev_write (i * ?L) (n * ?L) False, Ev_close]"
        by simp_all
      from r(2) w(1) have "\<not> ok" by simp
      with r(1) m1 show ?thesis by (simp add: tw)
    qed
    have E: "ok \<and>
        (\<forall>k. bit (dirty_mask ?t) k \<longleftrightarrow> bit (dirty_mask st) k \<and> \<not> (i \<le> k \<and> k < i + n)) \<and>
        mtd ?t = Some (take (i * ?L) m @ buffer_at st (i * ?L) (n * ?L) @ drop (i * ?L + n * ?L) m) \<and>
        buffer ?t = buffer st"
      if a: "\<not> io Tick_write" "mtd st = Some m" "PX4_STORAGE_SIZE \<le> length m"
        "length (buffer st) = PX4_STORAGE_SIZE" for m
    proof -
      have p: "\<not> io Tick_write" "mtd ?st1 = Some m" "i * ?L + n * ?L \<le> length m"
        "i * ?L + n * ?L \<le> length (buffer ?st1)"
        using a inside fr1 by simp_all
      note r0 = write_lines_written [where io = io, OF p, of wm]
      from r0 m1 have r1: "dirty_mask ?w = dirty_mask st AND NOT wm" by simp
      from r0 ba have r2: "mtd ?w =
          Some (take (i * ?L) m @ buffer_at st (i * ?L) (n * ?L) @ drop (i * ?L + n * ?L) m)"
        by simp
      from r0 fr1 have r3: "buffer ?w = buffer st" by simp
      from r0 obtain evs' where "trace ?w = trace ?st1 @ Ev_write (i * ?L) (n * ?L) True # evs'"
        by blast
      with w(1) have r4: "ok" by simp
      have r5: "bit (dirty_mask ?t) k \<longleftrightarrow> bit (dirty_mask st) k \<and> \<not> (i \<le> k \<and> k < i + n)" for k
      proof (cases "bit (dirty_mask st) k")
        case True
        then have "k < 32" by (auto dest: bit_imp_le_length)
        with True run(6) show ?thesis
          by (simp add: tw r1 bit_simps)
      next
        case False
        then show ?thesis by (simp add: tw r1 bit_simps)
      qed
      from r4 r5 r2 r3 show ?thesis by (simp add: tw)
    qed
    show ?thesis
    proof (rule exI [of _ i], rule exI [of _ n], rule exI [of _ ?evs], intro conjI)
      show ?P1 by (rule run(1))
      show ?P2 by (rule run(2))
      show "0 < n" by (rule run(3))
      show ?P4 by (rule run(7))
      show "n * ?L \<le> ?M" by (rule cap)
      show "Suc n * ?L > ?M \<or> i + n = PX4_STORAGE_NUM_LINES g \<or> \<not> bit (dirty_mask st) (i + n)"
        by (rule mx)
      show "trace ?t = trace st @ ?evs" by (rule A)
      show "filter is_write ?evs = [] \<or>
          (\<exists>ok. filter is_write ?evs = [Ev_write (i * ?L) (n * ?L) ok])"
        using B by blast
      show "\<forall>k. bit (dirty_mask st) k \<and> \<not> (i \<le> k \<and> k < i + n) \<longrightarrow> bit (dirty_mask ?t) k"
        by (rule C)
      show "io Tick_lseek \<longrightarrow> filter is_write ?evs = [] \<and> dirty_mask ?t = dirty_mask st"
        using False by blast
      show "\<not> io Tick_lseek \<and> io Tick_write \<longrightarrow>
          filter is_write ?evs = [Ev_write (i * ?L) (n * ?L) False] \<and> dirty_mask ?t = dirty_mask st"
      proof
        assume "\<not> io Tick_lseek \<and> io Tick_write"
        then have "io Tick_write" by simp
        from D [OF this] B show "filter is_write ?evs = [Ev_write (i * ?L) (n * ?L) False] \<and>
            dirty_mask ?t = dirty_mask st" by simp
      qed
      show "\<forall>m. \<not> io Tick_lseek \<and> \<not> io Tick_write \<and> mtd st = Some m \<and>
            PX4_STORAGE_SIZE \<le> length m \<and> length (buffer st) = PX4_STORAGE_SIZE \<longrightarrow>
          filter is_write ?evs = [Ev_write (i * ?L) (n * ?L) True] \<and>
          (\<forall>k. bit (dirty_mask ?t) k \<longleftrightarrow> bit (dirty_mask st) k \<and> \<not> (i \<le> k \<and> k < i + n)) \<and>
          mtd ?t = Some (take (i * ?L) m @ buffer_at st (i * ?L) (n * ?L) @
                         drop (i * ?L + n * ?L) m) \<and>
          buffer ?t = buffer st"
      proof (intro allI impI)
        fix m
        assume "\<not> io Tick_lseek \<and> \<not> io Tick_write \<and> mtd st = Some m \<and>
            PX4_STORAGE_SIZE \<le> length m \<and> length (buffer st) = PX4_STORAGE_SIZE"
        then have a: "\<not> io Tick_write" "mtd st = Some m" "PX4_STORAGE_SIZE \<le> length m"
          "length (buffer st) = PX4_STORAGE_SIZE" by simp_all
        from E [OF a] B show "filter is_write ?evs = [Ev_write (i * ?L) (n * ?L) True] \<and>
          (\<forall>k. bit (dirty_mask ?t) k \<longleftrightarrow> bit (dirty_mask st) k \<and> \<not> (i \<le> k \<and> k < i + n)) \<and>
          mtd ?t = Some (take (i * ?L) m @ buffer_at st (i * ?L) (n * ?L) @
                         drop (i * ?L + n * ?L) m) \<and>
          buffer ?t = buffer st" by simp
      qed
    qed
  qed
qed

theorem timer_tick_one_capped_run_witness:
  "config_ok lines_128 \<and> initialised (loaded 126) \<and> dirty_mask (loaded 126) = 126 \<and>
   fd (loaded 126) = 3 \<and>
   filter is_write (trace (timer_tick lines_128 no_faults (loaded 126))) =
     [Ev_write 128 512 True] \<and>
   dirty_mask (timer_tick lines_128 no_faults (loaded 126)) = 96 \<and>
   (\<forall>k. bit (dirty_mask (timer_tick lines_128 no_faults (loaded 126))) k \<longleftrightarrow>
      bit (126 :: 32 word) k \<and> \<not> (1 \<le> k \<and> k < 5)) \<and>
   mtd (timer_tick lines_128 no_faults (loaded 126)) =
     Some (take 128 (signed_mtd 0) @ buffer_at (loaded 126) 128 512 @ drop 640 (signed_mtd 0))"
proof -
  let ?t = "timer_tick lines_128 no_faults (loaded 126)"
  have h1: "config_ok lines_128" by (rule config_ok_128)
  have h2: "initialised (loaded 126)" by (simp add: loaded_simps)
  have h3: "dirty_mask (loaded 126) \<noteq> 0" by (simp add: loaded_simps)
  have h4: "\<forall>k. bit (dirty_mask (loaded 126)) k \<longrightarrow> k < PX4_STORAGE_NUM_LINES lines_128"
    by (rule mask_fits_128)
  have h5: "fd (loaded 126) \<noteq> - 1 \<or> \<not> no_faults Tick_open \<and> mtd (loaded 126) \<noteq> None"
    by (simp add: loaded_simps)
  have h6: "fd (loaded 126) = 3" "dirty_mask (loaded 126) = 126" by (simp_all add: loaded_simps)
  from timer_tick_one_capped_run [where io = no_faults, OF h1 h2 h3 h4 h5]
  obtain i n evs where tr: "trace ?t = trace (loaded 126) @ evs"
    and ran: "\<forall>m. \<not> no_faults Tick_lseek \<and> \<not> no_faults Tick_write \<and>
          mtd (loaded 126) = Some m \<and>
          PX4_STORAGE_SIZE \<le> length m \<and> length (buffer (loaded 126)) = PX4_STORAGE_SIZE \<longrightarrow>
        filter is_write evs =
          [Ev_write (i * PX4_STORAGE_LINE_SIZE lines_128) (n * PX4_STORAGE_LINE_SIZE lines_128) True] \<and>
        (\<forall>k. bit (dirty_mask ?t) k \<longleftrightarrow>
           bit (dirty_mask (loaded 126)) k \<and> \<not> (i \<le> k \<and> k < i + n)) \<and>
        mtd ?t =
          Some (take (i * PX4_STORAGE_LINE_SIZE lines_128) m @
                buffer_at (loaded 126) (i * PX4_STORAGE_LINE_SIZE lines_128)
                  (n * PX4_STORAGE_LINE_SIZE lines_128) @
                drop (i * PX4_STORAGE_LINE_SIZE lines_128 + n * PX4_STORAGE_LINE_SIZE lines_128) m) \<and>
        buffer ?t = buffer (loaded 126)"
    by (elim exE conjE) (rule that, assumption+)
  have pre: "\<not> no_faults Tick_lseek \<and> \<not> no_faults Tick_write \<and>
      mtd (loaded 126) = Some (signed_mtd 0) \<and>
      PX4_STORAGE_SIZE \<le> length (signed_mtd 0) \<and> length (buffer (loaded 126)) = PX4_STORAGE_SIZE"
    by (simp add: no_faults_def loaded_simps length_signed_mtd PX4_STORAGE_SIZE_def)
  from ran [rule_format, OF pre]
  have W: "filter is_write evs = [Ev_write (i * 128) (n * 128) True]"
    "\<forall>k. bit (dirty_mask ?t) k \<longleftrightarrow> bit (126 :: 32 word) k \<and> \<not> (i \<le> k \<and> k < i + n)"
    "mtd ?t = Some (take (i * 128) (signed_mtd 0) @ buffer_at (loaded 126) (i * 128) (n * 128) @
        drop (i * 128 + n * 128) (signed_mtd 0))"
    by (simp_all add: line_size_128 loaded_simps)
  from tick_still_dirty tr have evs: "evs = [Ev_lseek 128 True, Ev_write 128 512 True]"
    by (simp add: loaded_simps)
  with W(1) have "i * 128 = 128" "n * 128 = 512" by simp_all
  then have i: "i = 1" and n: "n = 4" by simp_all
  from tr evs have f: "filter is_write (trace ?t) = [Ev_write 128 512 True]"
    by (simp add: loaded_simps)
  from tick_still_dirty have d: "dirty_mask ?t = 96" by simp
  from W(2) have b: "\<forall>k. bit (dirty_mask ?t) k \<longleftrightarrow> bit (126 :: 32 word) k \<and> \<not> (1 \<le> k \<and> k < 5)"
    by (simp add: i n)
  from W(3) have m: "mtd ?t =
      Some (take 128 (signed_mtd 0) @ buffer_at (loaded 126) 128 512 @ drop 640 (signed_mtd 0))"
    by (simp add: i n)
  from h1 h2 h6 f d b m show ?thesis by (intro conjI)
qed

text \<open>
  C7. When the device write of a flush invocation fails (the store is initialised, a
  descriptor is held or opened, a run has been selected and the seek succeeded), the
  dirty mask after the invocation is the mask before it, so every bit cleared for the
  run is set again; the descriptor is closed and \<open>_fd\<close> is -1; the error counter has
  gone up by one; the buffer and the device are as they were.
\<close>

theorem timer_tick_write_failure:
  assumes "initialised st" and "dirty_mask st \<noteq> 0"
    and "fd st \<noteq> - 1 \<or> \<not> io Tick_open \<and> mtd st \<noteq> None"
    and "first_dirty g (dirty_mask st) 0 < PX4_STORAGE_NUM_LINES g"
    and "\<not> io Tick_lseek" and "io Tick_write"
  shows "dirty_mask (timer_tick g io st) = dirty_mask st \<and>
     fd (timer_tick g io st) = - 1 \<and>
     perf_errors (timer_tick g io st) = Suc (perf_errors st) \<and>
     buffer (timer_tick g io st) = buffer st \<and>
     mtd (timer_tick g io st) = mtd st \<and>
     (\<exists>evs off len. trace (timer_tick g io st) = trace st @ evs @ [Ev_write off len False, Ev_close])"
proof -
  let ?sh = "PX4_STORAGE_LINE_SHIFT g"
  obtain i n wm where sub: "\<forall>k. bit wm k \<longleftrightarrow> i \<le> k \<and> k < i + n"
    and allset: "\<forall>k. i \<le> k \<and> k < i + n \<longrightarrow> bit (dirty_mask st) k"
    and tick: "timer_tick g io st =
       perf_end
         (if io Tick_lseek
          then emit [Ev_lseek (push_bit ?sh i) False] (attempt_open io st)
          else write_lines io (emit [Ev_lseek (push_bit ?sh i) True] (attempt_open io st))
                 (push_bit ?sh i) (push_bit ?sh n) wm)"
    using timer_tick_run [where st = st and io = io and g = g, OF assms(1-4)]
    by (elim exE conjE) (rule that, assumption+)
  let ?st1 = "emit [Ev_lseek (push_bit ?sh i) True] (attempt_open io st)"
  have m1: "dirty_mask ?st1 = dirty_mask st"
    by (simp add: emit_def attempt_open_frame)
  from sub allset have "\<forall>k. bit wm k \<longrightarrow> bit (dirty_mask st) k" by simp
  then have restored: "(dirty_mask st AND NOT wm) OR wm = dirty_mask st"
    by (rule restore_mask)
  have w: "write_lines io ?st1 (push_bit ?sh i) (push_bit ?sh n) wm =
     perf_count (emit [Ev_write (push_bit ?sh i) (push_bit ?sh n) False, Ev_close]
       (?st1\<lparr>dirty_mask := dirty_mask st, fd := - 1\<rparr>))"
    using write_lines_failed [of io ?st1 "push_bit ?sh i" "push_bit ?sh n" wm] assms(2,6)
    by (simp add: m1 restored)
  have t: "timer_tick g io st =
     perf_end (perf_count (emit [Ev_write (push_bit ?sh i) (push_bit ?sh n) False, Ev_close]
       (?st1\<lparr>dirty_mask := dirty_mask st, fd := - 1\<rparr>)))"
    using tick assms(5) w by simp
  have "\<exists>evs. trace (attempt_open io st) = trace st @ evs"
    by (simp add: attempt_open_def emit_def)
  then obtain ev0 where ev0: "trace (attempt_open io st) = trace st @ ev0" by blast
  have "trace (timer_tick g io st) =
      trace st @ (ev0 @ [Ev_lseek (push_bit ?sh i) True]) @
        [Ev_write (push_bit ?sh i) (push_bit ?sh n) False, Ev_close]"
    unfolding t by (simp add: perf_end_def perf_count_def emit_def ev0)
  then have "\<exists>evs off len. trace (timer_tick g io st) = trace st @ evs @ [Ev_write off len False, Ev_close]"
    by blast
  then show ?thesis
    unfolding t by (simp add: perf_end_def perf_count_def emit_def attempt_open_frame)
qed


theorem timer_tick_write_failure_witness:
  "only_fails Tick_write Tick_write \<and>
   dirty_mask (timer_tick lines_128 (only_fails Tick_write) (loaded 6)) = 6 \<and>
   fd (timer_tick lines_128 (only_fails Tick_write) (loaded 6)) = - 1 \<and>
   perf_errors (timer_tick lines_128 (only_fails Tick_write) (loaded 6)) = Suc 0 \<and>
   buffer (timer_tick lines_128 (only_fails Tick_write) (loaded 6)) = buffer (loaded 6) \<and>
   mtd (timer_tick lines_128 (only_fails Tick_write) (loaded 6)) = mtd (loaded 6) \<and>
   (\<exists>evs off len. trace (timer_tick lines_128 (only_fails Tick_write) (loaded 6)) =
      evs @ [Ev_write off len False, Ev_close])"
proof -
  have h1: "initialised (loaded 6)" by (simp add: loaded_simps)
  have h2: "dirty_mask (loaded 6) \<noteq> 0" by (simp add: loaded_simps)
  have h3: "fd (loaded 6) \<noteq> - 1 \<or> \<not> only_fails Tick_write Tick_open \<and> mtd (loaded 6) \<noteq> None"
    by (simp add: loaded_simps)
  have h4: "first_dirty lines_128 (dirty_mask (loaded 6)) 0 < PX4_STORAGE_NUM_LINES lines_128"
    by (rule first_dirty_128) simp
  have h5: "\<not> only_fails Tick_write Tick_lseek" by (simp add: only_fails_def)
  have h6: "only_fails Tick_write Tick_write" by (simp add: only_fails_def)
  from timer_tick_write_failure [where io = "only_fails Tick_write", OF h1 h2 h3 h4 h5 h6] h6
  show ?thesis by (simp add: loaded_simps)
qed

text \<open>
  C8. In every flush invocation the number of syncs is one when the invocation made a
  successful device write and left the dirty mask empty, and zero otherwise: never
  after a write that leaves a bit set, never after a failed write, never without a
  write.
\<close>

theorem timer_tick_fsync_iff_cleared:
  "\<exists>evs. trace (timer_tick g io st) = trace st @ evs \<and>
     length (filter is_fsync evs) =
       (if (\<exists>off len. Ev_write off len True \<in> set evs) \<and> dirty_mask (timer_tick g io st) = 0
        then 1 else 0)"
proof (cases "initialised st \<and> dirty_mask st \<noteq> 0")
  case False
  then have "timer_tick g io st = st"
    by (auto simp: timer_tick_def)
  then show ?thesis by simp
next
  case True
  then have ini: "initialised st" and nz: "dirty_mask st \<noteq> 0" by simp_all
  let ?o = "attempt_open io st"
  from attempt_open_trace [of io st] obtain ev0 where ev0:
    "trace ?o = trace st @ ev0" "filter is_fsync ev0 = []"
    "\<forall>off len. Ev_write off len True \<notin> set ev0"
    by blast
  from timer_tick_cases [OF ini nz, of g io]
  consider (err) "timer_tick g io st = perf_count (perf_end ?o)"
    | (seek) off where "timer_tick g io st = perf_end (emit [Ev_lseek off False] ?o)"
    | (wr) off len wm where "timer_tick g io st =
        perf_end (write_lines io (emit [Ev_lseek off True] ?o) off len wm)"
    by blast
  then show ?thesis
  proof cases
    case err
    have "trace (timer_tick g io st) = trace st @ ev0"
      by (simp add: err perf_count_def perf_end_def ev0)
    with ev0 show ?thesis
      by (intro exI [of _ ev0]) simp
  next
    case seek
    have "trace (timer_tick g io st) = trace st @ (ev0 @ [Ev_lseek off False])"
      by (simp add: seek perf_end_def emit_def ev0)
    with ev0 show ?thesis
      by (intro exI [of _ "ev0 @ [Ev_lseek off False]"]) simp
  next
    case wr
    let ?s = "emit [Ev_lseek off True] ?o"
    let ?w = "write_lines io ?s off len wm"
    have nz1: "dirty_mask ?s \<noteq> 0"
      using nz by (simp add: emit_def attempt_open_frame)
    from write_lines_syncs [OF nz1, of io off len wm] obtain evs where evs:
      "trace ?w = trace ?s @ evs"
      "length (filter is_fsync evs) =
         (if (\<exists>off len. Ev_write off len True \<in> set evs) \<and> dirty_mask ?w = 0 then 1 else 0)"
      by blast
    have ts: "trace ?s = trace st @ ev0 @ [Ev_lseek off True]"
      by (simp add: emit_def ev0)
    have tr: "trace (timer_tick g io st) = trace st @ (ev0 @ Ev_lseek off True # evs)"
      unfolding wr using evs(1) ts by (simp add: perf_end_def)
    have dm: "dirty_mask (timer_tick g io st) = dirty_mask ?w"
      unfolding wr by (simp add: perf_end_def)
    have f: "filter is_fsync (ev0 @ Ev_lseek off True # evs) = filter is_fsync evs"
      by (simp add: ev0)
    have s: "(\<exists>off' len. Ev_write off' len True \<in> set (ev0 @ Ev_lseek off True # evs)) \<longleftrightarrow>
        (\<exists>off' len. Ev_write off' len True \<in> set evs)"
      using ev0(3) by auto
    show ?thesis
      using tr evs(2)
      by (intro exI [of _ "ev0 @ Ev_lseek off True # evs"]) (simp only: f s dm simp_thms)
  qed
qed

theorem timer_tick_fsync_iff_cleared_witness:
  "length (filter is_fsync (trace (timer_tick lines_128 no_faults (loaded 6)))) = 1 \<and>
   dirty_mask (timer_tick lines_128 no_faults (loaded 6)) = 0 \<and>
   length (filter is_fsync (trace (timer_tick lines_128 no_faults (loaded 126)))) = 0 \<and>
   dirty_mask (timer_tick lines_128 no_faults (loaded 126)) = 96"
  using timer_tick_fsync_iff_cleared [of lines_128 no_faults "loaded 6"]
    timer_tick_fsync_iff_cleared [of lines_128 no_faults "loaded 126"]
    tick_all_clean tick_still_dirty
  by (auto simp: loaded_simps)

text \<open>
  C9 fails on the code. The writers compare the new bytes with \<open>_buffer\<close> before
  \<open>_storage_open\<close> has loaded it. On a store not yet opened, over a device whose
  byte 0 is 5, \<open>write_block(0, [0], 1)\<close> finds the zero of the unloaded buffer, takes
  the write for redundant and drops it; \<open>read_block(0, 1)\<close> then opens the store and
  returns \<open>[5]\<close>.
\<close>

theorem write_before_open_is_lost:
  "write_block lines_128 no_faults (PX4Storage (Some (signed_mtd 5)) None) 0 [0] 1 =
     Inr (PX4Storage (Some (signed_mtd 5)) None) \<and>
   (\<exists>st'. read_block no_faults (PX4Storage (Some (signed_mtd 5)) None) [0] 0 1 = Inr (st', [5]))"
proof -
  let ?st = "PX4Storage (Some (signed_mtd 5)) None"
  have g: "\<not> (ucast (0 :: 16 word) :: 32 word) \<ge> sizeof_buffer - (1 - 1)"
    by (simp add: sizeof_buffer_def PX4_STORAGE_SIZE_def)
  have w: "write_block lines_128 no_faults ?st 0 [0] 1 = Inr ?st"
    using g by (simp add: write_block_def buffer_at_def PX4Storage_def PX4_STORAGE_SIZE_def)
  from storage_open_signed [of 5] obtain st' where st': "storage_open no_faults ?st = Inr st'"
    "buffer st' = replicate PX4_STORAGE_SIZE 5" by blast
  have r: "read_block no_faults ?st [0] 0 1 = Inr (st', [5])"
    using g st' by (simp add: read_block_def buffer_at_def PX4_STORAGE_SIZE_def)
  from w r show ?thesis by blast
qed

text \<open>
  C10. When the seek of a flush invocation fails (the store is initialised, a
  descriptor is held or opened, a run has been selected), the invocation leaves the
  dirty mask, the device and the buffer as they were, still holds the descriptor, does
  not count an error, and neither writes nor closes.
\<close>

theorem timer_tick_seek_failure:
  assumes "initialised st" and "dirty_mask st \<noteq> 0"
    and "fd st \<noteq> - 1 \<or> \<not> io Tick_open \<and> mtd st \<noteq> None"
    and "first_dirty g (dirty_mask st) 0 < PX4_STORAGE_NUM_LINES g"
    and "io Tick_lseek"
  shows "dirty_mask (timer_tick g io st) = dirty_mask st \<and>
     mtd (timer_tick g io st) = mtd st \<and>
     buffer (timer_tick g io st) = buffer st \<and>
     fd (timer_tick g io st) \<noteq> - 1 \<and>
     perf_errors (timer_tick g io st) = perf_errors st \<and>
     (\<exists>evs. trace (timer_tick g io st) = trace st @ evs \<and>
        filter is_write evs = [] \<and> Ev_close \<notin> set evs)"
proof -
  let ?sh = "PX4_STORAGE_LINE_SHIFT g"
  obtain i n wm where tick: "timer_tick g io st =
       perf_end
         (if io Tick_lseek
          then emit [Ev_lseek (push_bit ?sh i) False] (attempt_open io st)
          else write_lines io (emit [Ev_lseek (push_bit ?sh i) True] (attempt_open io st))
                 (push_bit ?sh i) (push_bit ?sh n) wm)"
    using timer_tick_run [where st = st and io = io and g = g, OF assms(1-4)]
    by (elim exE conjE) (rule that, assumption+)
  with assms(5) have t: "timer_tick g io st =
      perf_end (emit [Ev_lseek (push_bit ?sh i) False] (attempt_open io st))"
    by simp
  have fd1: "fd (attempt_open io st) \<noteq> - 1"
    using assms(3) by (auto simp: attempt_open_def emit_def)
  have "\<exists>evs. trace (attempt_open io st) = trace st @ evs \<and> filter is_write evs = [] \<and> Ev_close \<notin> set evs"
    by (simp add: attempt_open_def emit_def)
  then obtain ev0 where ev0: "trace (attempt_open io st) = trace st @ ev0"
    "filter is_write ev0 = []" "Ev_close \<notin> set ev0" by blast
  have "trace (timer_tick g io st) = trace st @ (ev0 @ [Ev_lseek (push_bit ?sh i) False]) \<and>
      filter is_write (ev0 @ [Ev_lseek (push_bit ?sh i) False]) = [] \<and>
      Ev_close \<notin> set (ev0 @ [Ev_lseek (push_bit ?sh i) False])"
    unfolding t by (simp add: perf_end_def emit_def ev0)
  then have "\<exists>evs. trace (timer_tick g io st) = trace st @ evs \<and>
        filter is_write evs = [] \<and> Ev_close \<notin> set evs"
    by blast
  then show ?thesis
    using fd1 unfolding t by (simp add: perf_end_def emit_def attempt_open_frame)
qed

theorem timer_tick_seek_failure_witness:
  "only_fails Tick_lseek Tick_lseek \<and>
   dirty_mask (timer_tick lines_128 (only_fails Tick_lseek) (loaded 6)) = 6 \<and>
   mtd (timer_tick lines_128 (only_fails Tick_lseek) (loaded 6)) = mtd (loaded 6) \<and>
   buffer (timer_tick lines_128 (only_fails Tick_lseek) (loaded 6)) = buffer (loaded 6) \<and>
   fd (timer_tick lines_128 (only_fails Tick_lseek) (loaded 6)) \<noteq> - 1 \<and>
   perf_errors (timer_tick lines_128 (only_fails Tick_lseek) (loaded 6)) = 0 \<and>
   (\<exists>evs. trace (timer_tick lines_128 (only_fails Tick_lseek) (loaded 6)) = evs \<and>
      filter is_write evs = [] \<and> Ev_close \<notin> set evs)"
proof -
  have h1: "initialised (loaded 6)" by (simp add: loaded_simps)
  have h2: "dirty_mask (loaded 6) \<noteq> 0" by (simp add: loaded_simps)
  have h3: "fd (loaded 6) \<noteq> - 1 \<or> \<not> only_fails Tick_lseek Tick_open \<and> mtd (loaded 6) \<noteq> None"
    by (simp add: loaded_simps)
  have h4: "first_dirty lines_128 (dirty_mask (loaded 6)) 0 < PX4_STORAGE_NUM_LINES lines_128"
    by (rule first_dirty_128) simp
  have h5: "only_fails Tick_lseek Tick_lseek" by (simp add: only_fails_def)
  from timer_tick_seek_failure [where io = "only_fails Tick_lseek", OF h1 h2 h3 h4 h5] h5
  show ?thesis by (simp add: loaded_simps)
qed

end
